theory Spec2Isabelle
  imports Complex_Main "HOL-Library.Multiset" "HOL-Library.Extended_Nat"
begin

section \<open>MOEA/D: data model\<close>

text \<open>
  The development follows \<^verbatim>\<open>pymoo/algorithms/moo/moead.py\<close>. Objective values, weights
  and scalarized values are numpy floats in the source; they are modelled as real numbers.
  Of the objective and scalarized values only the order is used (\<open><\<close>, \<open>\<le>\<close>, \<open>min\<close>), which
  is exact on floats; NaN objective values are outside the model. The distances between
  weight vectors are computed in double precision, and their rounding is modelled.

  A two-dimensional numpy array is the list of its rows. The population is a numpy array
  of object references: \<open>pop\<close> is a list of references into a heap of individuals, so that
  writing the same offspring into several slots is visible as sharing.
\<close>

type_synonym vec = "real list"
type_synonym ref = nat

datatype error = AssertionError string | ValueError | IndexError | TypeError | UnknownDecomposition string

record individual =
  X :: vec
  F :: vec
  tag_i :: "nat option"

type_synonym heap = "ref \<Rightarrow> individual"

text \<open>A scalarizing function: objective vector, weight vector, ideal point to a scalar.\<close>

type_synonym scalarizer = "vec \<Rightarrow> vec \<Rightarrow> vec \<Rightarrow> real"

datatype decomposition_option = Name string | Instance scalarizer

record problem =
  n_obj :: int
  has_constraints :: bool

text \<open>The attributes set by \<^verbatim>\<open>MOEAD.__init__\<close>.\<close>

record moead_config =
  ref_dirs :: "vec list"
  n_neighbors :: int
  prob_neighbor_mating :: real
  decomposition :: decomposition_option
  neighbors :: "nat list list"
  pop_size :: nat

text \<open>
  The running algorithm: the configuration, the population (with the heap its references
  point into), and the attributes set by \<^verbatim>\<open>_post_initialize\<close>: the ideal point and the
  resolved decomposition \<^verbatim>\<open>_decomposition\<close>.
\<close>

record moead = moead_config +
  pop :: "ref list"
  heap :: heap
  ideal :: vec
  the_decomposition :: scalarizer

section \<open>Library operations used by the source\<close>

text \<open>\<^verbatim>\<open>np.min(M, axis=0)\<close> of a non-empty matrix: the column-wise minimum of its rows.\<close>

fun np_min_axis0 :: "vec list \<Rightarrow> error + vec" where
  "np_min_axis0 [] = Inl ValueError"
| "np_min_axis0 (r # rs) = Inr (foldl (\<lambda>acc row. map2 min acc row) r rs)"

text \<open>\<^verbatim>\<open>np.vstack\<close> raises unless all rows have the same length.\<close>

definition np_vstack :: "vec list \<Rightarrow> error + vec list" where
  "np_vstack rows =
     (case rows of [] \<Rightarrow> Inl ValueError
      | r # rs \<Rightarrow> if list_all (\<lambda>x. length x = length r) rs then Inr rows else Inl ValueError)"

text \<open>\<^verbatim>\<open>np.where(a < b)[0]\<close> for two vectors of the same length.\<close>

definition np_where_less :: "real list \<Rightarrow> real list \<Rightarrow> nat list" where
  "np_where_less a b = filter (\<lambda>j. a ! j < b ! j) [0..<length a]"

text \<open>
  The update expression of the ideal point, \<^verbatim>\<open>np.min(np.vstack([self.ideal, Fs]), axis=0)\<close>,
  written in both engines.
\<close>

definition update_ideal :: "vec \<Rightarrow> vec list \<Rightarrow> error + vec" where
  "update_ideal z Fs =
     (case np_vstack (z # Fs) of Inl err \<Rightarrow> Inl err | Inr rows \<Rightarrow> np_min_axis0 rows)"

text \<open>
  Rounding to the nearest double (IEEE binary64, ties to even): the result is an integer
  multiple of the unit in the last place of the binade of \<open>x\<close>, and of \<open>2\<^sup>-\<^sup>1\<^sup>0\<^sup>7\<^sup>4\<close> below the
  normal range. Overflow to infinity is outside the model.
\<close>

definition round_even :: "real \<Rightarrow> int" where
  "round_even y =
     (let f = \<lfloor>y\<rfloor> in
      if y - of_int f < 1/2 then f
      else if 1/2 < y - of_int f then f + 1
      else if even f then f else f + 1)"

definition fl :: "real \<Rightarrow> real" where
  "fl x =
     (if x = 0 then 0
      else
        let e = max \<lfloor>log 2 \<bar>x\<bar>\<rfloor> (- 1022);
            u = 2 powr of_int (e - 52)
        in of_int (round_even (x / u)) * u)"

text \<open>
  \<^verbatim>\<open>scipy.spatial.distance.cdist\<close> with the default Euclidean metric, computed in doubles:
  for every pair of rows the loop \<^verbatim>\<open>d = u[i] - v[i]; s += d * d\<close> and then \<^verbatim>\<open>sqrt(s)\<close>, each
  operation rounded. It raises ValueError unless both inputs are two-dimensional with the
  same number of columns.
\<close>

definition euclidean :: "vec \<Rightarrow> vec \<Rightarrow> real" where
  "euclidean u v = fl (sqrt (foldl (\<lambda>s (x, y). fl (s + fl ((fl (x - y))\<^sup>2))) 0 (zip u v)))"


definition cdist :: "vec list \<Rightarrow> vec list \<Rightarrow> error + real list list" where
  "cdist XA XB =
     (if list_all (\<lambda>a. list_all (\<lambda>r. length r = length a) (XA @ XB)) (XA @ XB)
      then Inr (map (\<lambda>a. map (\<lambda>b. euclidean a b) XB) XA)
      else Inl ValueError)"

text \<open>
  \<^verbatim>\<open>np.argsort(..., kind='quicksort')\<close> is a parameter \<open>argsort\<close> of the constructor's
  model. numpy's quicksort is not stable, so all that is known of it is that it returns
  a permutation of the positions that sorts the keys.
\<close>

definition argsort_spec :: "(real list \<Rightarrow> nat list) \<Rightarrow> bool" where
  "argsort_spec argsort \<longleftrightarrow>
     (\<forall>xs. mset (argsort xs) = mset [0..<length xs] \<and> sorted (map (\<lambda>j. xs ! j) (argsort xs)))"

text \<open>One such function, the stable insertion sort of the positions by their keys.\<close>

definition argsort_stable :: "real list \<Rightarrow> nat list" where
  "argsort_stable xs = sort_key (\<lambda>j. xs ! j) [0..<length xs]"

text \<open>The Python slice \<^verbatim>\<open>xs[:k]\<close>: a negative bound counts from the end.\<close>

definition py_slice_to :: "'a list \<Rightarrow> int \<Rightarrow> 'a list" where
  "py_slice_to xs k = (if 0 \<le> k then take (nat k) xs else take (length xs - nat (- k)) xs)"

text \<open>
  The row assignment \<^verbatim>\<open>P[i] = row\<close> into a row of width \<open>n\<close>: numpy broadcasts a row of
  length one and raises ValueError for any other length than \<open>n\<close>.
\<close>

definition assign_row :: "nat \<Rightarrow> nat list \<Rightarrow> error + nat list" where
  "assign_row n row =
     (if length row = n then Inr row
      else if length row = 1 then Inr (replicate n (hd row))
      else Inl ValueError)"

text \<open>
  Modelled from the spec: the \<^verbatim>\<open>do\<close> method of the decomposition strategy
  (\<^verbatim>\<open>pymoo.factory.get_decomposition\<close>, not part of \<^verbatim>\<open>moead.py\<close>) "returns one scalar per
  candidate", each candidate scored under its own weight vector and the given ideal point.
  A single objective vector (\<^verbatim>\<open>off.F[None, :]\<close>) is scored under every weight vector.
\<close>

definition decomposition_do :: "scalarizer \<Rightarrow> vec list \<Rightarrow> vec list \<Rightarrow> vec \<Rightarrow> real list" where
  "decomposition_do g Fs weights ideal_point =
     (if length Fs = 1 then map (\<lambda>w. g (hd Fs) w ideal_point) weights
      else map2 (\<lambda>f w. g f w ideal_point) Fs weights)"

section \<open>Collaborators\<close>

text \<open>
  The random number generator, the mating operator and the evaluator are outside
  \<^verbatim>\<open>moead.py\<close>. They are functions over an environment \<open>'e\<close> (the generator's state and whatever
  else they keep), threaded through every call in the order the source makes the calls.
  \<open>mating_do w h pop n P\<close> is \<^verbatim>\<open>self.mating.do(self.problem, pop, n, parents=P)\<close>: it
  returns references to new individuals and the heap that holds them.
  \<open>evaluator_eval w h offs\<close> is \<^verbatim>\<open>self.evaluator.eval(self.problem, offs)\<close>: it stores the
  objective vectors in the heap. \<open>n_parents\<close> and \<open>n_offsprings\<close> are those of
  \<^verbatim>\<open>self.mating.crossover\<close>.
\<close>

record 'e collaborators =
  np_random :: "'e \<Rightarrow> real \<times> 'e"
  np_permutation :: "nat \<Rightarrow> 'e \<Rightarrow> nat list \<times> 'e"
  n_parents :: nat
  n_offsprings :: nat
  mating_do :: "heap \<Rightarrow> ref list \<Rightarrow> enat \<Rightarrow> nat list list \<Rightarrow> 'e \<Rightarrow> (ref list \<times> heap) \<times> 'e"
  evaluator_eval :: "heap \<Rightarrow> ref list \<Rightarrow> 'e \<Rightarrow> heap \<times> 'e"

text \<open>
  What is known of \<^verbatim>\<open>np.random.permutation(n)\<close>: it returns a permutation of
  \<open>0, \<dots>, n - 1\<close>.
\<close>

definition permutation_spec :: "'e collaborators \<Rightarrow> bool" where
  "permutation_spec w \<longleftrightarrow> (\<forall>n e. mset (fst (np_permutation w n e)) = mset [0..<n])"

text \<open>
  \<^verbatim>\<open>np.random.choice(a, n, replace=False)\<close>: numpy raises ValueError when \<open>n\<close>
  exceeds the length of \<open>a\<close>, and otherwise returns the entries of \<open>a\<close> at the first
  \<open>n\<close> positions of a random permutation of its positions.
\<close>

definition np_random_choice ::
  "'e collaborators \<Rightarrow> nat list \<Rightarrow> nat \<Rightarrow> 'e \<Rightarrow> error + (nat list \<times> 'e)" where
  "np_random_choice w a n e =
     (if length a < n then Inl ValueError
      else let (p, e') = np_permutation w (length a) e
           in Inr (map (\<lambda>q. a ! q) (take n p), e'))"

section \<open>Neighborhood selection\<close>

text \<open>
  The loop of \<^verbatim>\<open>NeighborhoodSelection._do\<close> over the anchors \<open>k\<close>: one
  \<^verbatim>\<open>np.random.random()\<close> per anchor, then either a choice without replacement in the
  anchor's neighbor row or the head of a permutation of the population's indices.
\<close>

fun selection_rows ::
  "'e collaborators \<Rightarrow> nat list list \<Rightarrow> real \<Rightarrow> nat \<Rightarrow> nat \<Rightarrow> nat list \<Rightarrow> 'e
     \<Rightarrow> error + (nat list list \<times> 'e)" where
  "selection_rows w N prob len_pop n_par [] e = Inr ([], e)"
| "selection_rows w N prob len_pop n_par (j # k) e =
     (let (u, e1) = np_random w e in
      case (if u < prob
            then (if length N \<le> j then Inl IndexError
                  else np_random_choice w (N ! j) n_par e1)
            else (let (p, e2) = np_permutation w len_pop e1 in Inr (take n_par p, e2))) of
        Inl err \<Rightarrow> Inl err
      | Inr (row, e2) \<Rightarrow>
          (case assign_row n_par row of
             Inl err \<Rightarrow> Inl err
           | Inr r \<Rightarrow>
               (case selection_rows w N prob len_pop n_par k e2 of
                  Inl err \<Rightarrow> Inl err
                | Inr (P, e3) \<Rightarrow> Inr (r # P, e3))))"

text \<open>
  \<^verbatim>\<open>NeighborhoodSelection._do(pop, n_select, n_parents, k)\<close>; of \<open>pop\<close> only its length is
  read. \<open>N\<close> and \<open>prob\<close> are the selector's attributes.
\<close>

definition NeighborhoodSelection_do ::
  "'e collaborators \<Rightarrow> nat list list \<Rightarrow> real \<Rightarrow> nat \<Rightarrow> nat \<Rightarrow> nat \<Rightarrow> nat list option \<Rightarrow> 'e
     \<Rightarrow> error + (nat list list \<times> 'e)" where
  "NeighborhoodSelection_do w N prob len_pop n_select n_par k e =
     (case (case k of
              None \<Rightarrow> (let (p, e0) = np_permutation w len_pop e in (take n_select p, e0))
            | Some k' \<Rightarrow> (k', e)) of
        (k', e0) \<Rightarrow>
          if length k' \<noteq> n_select then Inl (AssertionError [])
          else selection_rows w N prob len_pop n_par k' e0)"

section \<open>Construction and setup\<close>

text \<open>
  \<^verbatim>\<open>MOEAD.__init__\<close>: the neighborhood size is clamped to the number of directions, each row
  of the distance matrix is argsorted and cut to its first \<open>n_neighbors\<close> columns, and the
  population size is the number of directions.
\<close>

definition MOEAD_init ::
  "(real list \<Rightarrow> nat list) \<Rightarrow> vec list \<Rightarrow> int \<Rightarrow> decomposition_option \<Rightarrow> real
     \<Rightarrow> error + moead_config" where
  "MOEAD_init argsort rd n_nb dec prob =
     (let K = min (int (length rd)) n_nb in
      case cdist rd rd of
        Inl err \<Rightarrow> Inl err
      | Inr D \<Rightarrow>
          Inr \<lparr>ref_dirs = rd, n_neighbors = K, prob_neighbor_mating = prob,
               decomposition = dec,
               neighbors = map (\<lambda>row. py_slice_to (argsort row) K) D,
               pop_size = length rd\<rparr>)"

text \<open>\<^verbatim>\<open>MOEAD._setup\<close>: the assertion that the problem has no constraints.\<close>

definition MOEAD_setup :: "problem \<Rightarrow> error + unit" where
  "MOEAD_setup p =
     (if has_constraints p
      then Inl (AssertionError ''This implementation of MOEAD does not support any constraints.'')
      else Inr ())"

text \<open>
  \<^verbatim>\<open>MOEAD._post_initialize\<close>, given the initial population the framework has sampled and
  evaluated. \<open>get_decomposition\<close> is the factory of \<^verbatim>\<open>pymoo.factory\<close>, a parameter.
\<close>

definition MOEAD_post_initialize ::
  "(string \<Rightarrow> error + scalarizer) \<Rightarrow> problem \<Rightarrow> moead_config \<Rightarrow> ref list \<Rightarrow> heap
     \<Rightarrow> error + moead" where
  "MOEAD_post_initialize get_decomposition p c pop0 h =
     (case (case np_vstack (map (\<lambda>r. F (h r)) pop0) of
              Inl err \<Rightarrow> Inl err | Inr rows \<Rightarrow> np_min_axis0 rows) of
        Inl err \<Rightarrow> Inl err
      | Inr z \<Rightarrow>
          (case (case decomposition c of
                   Name decomp \<Rightarrow>
                     get_decomposition
                       (if decomp = ''auto''
                        then (if n_obj p \<le> 2 then ''tchebi'' else ''pbi'')
                        else decomp)
                 | Instance g \<Rightarrow> Inr g) of
             Inl err \<Rightarrow> Inl err
           | Inr g \<Rightarrow>
               Inr (moead_config.extend c
                      \<lparr>pop = pop0, heap = h, ideal = z, the_decomposition = g\<rparr>)))"

section \<open>Replacement\<close>

text \<open>
  \<^verbatim>\<open>MOEAD._replace(i, off)\<close>. \<^verbatim>\<open>self.neighbors[i]\<close>, \<^verbatim>\<open>pop[N]\<close> and
  \<^verbatim>\<open>self.ref_dirs[N, :]\<close> raise IndexError out of range. The assignment
  \<^verbatim>\<open>pop[N[I]] = off\<close> stores the reference \<open>off\<close> in every selected slot.
\<close>

definition MOEAD_replace :: "moead \<Rightarrow> nat \<Rightarrow> ref \<Rightarrow> error + moead" where
  "MOEAD_replace s i off =
     (if length (neighbors s) \<le> i then Inl IndexError
      else
        let N = neighbors s ! i in
        if \<not> list_all (\<lambda>n. n < length (pop s) \<and> n < length (ref_dirs s)) N then Inl IndexError
        else
          let weights = map (\<lambda>n. ref_dirs s ! n) N;
              FV = decomposition_do (the_decomposition s)
                     (map (\<lambda>n. F (heap s (pop s ! n))) N) weights (ideal s);
              off_FV = decomposition_do (the_decomposition s)
                     [F (heap s off)] weights (ideal s);
              I = np_where_less off_FV FV
          in Inr (s\<lparr>pop := fold (\<lambda>j p. p[N ! j := off]) I (pop s)\<rparr>))"

text \<open>
  The comparison \<^verbatim>\<open>off_FV < FV\<close> at the neighbor with index \<open>n\<close>: the offspring's scalarized
  value under \<open>n\<close>'s weight vector and the current ideal point is strictly less than the
  incumbent's under the same weight vector and ideal point.
\<close>

definition offspring_better :: "moead \<Rightarrow> ref \<Rightarrow> nat \<Rightarrow> bool" where
  "offspring_better s off n \<longleftrightarrow>
     the_decomposition s (F (heap s off)) (ref_dirs s ! n) (ideal s)
       < the_decomposition s (F (heap s (pop s ! n))) (ref_dirs s ! n) (ideal s)"

section \<open>The sequential engine\<close>

text \<open>
  The body of the loop of \<^verbatim>\<open>MOEAD._advance\<close> for the visiting order \<open>i # rest\<close>: select
  the parents, mate and keep the first offspring, evaluate it, update the ideal point,
  replace.
\<close>

fun advance_loop :: "'e collaborators \<Rightarrow> nat list \<Rightarrow> moead \<Rightarrow> 'e \<Rightarrow> error + (moead \<times> 'e)" where
  "advance_loop w [] s e = Inr (s, e)"
| "advance_loop w (i # rest) s e =
     (case NeighborhoodSelection_do w (neighbors s) (prob_neighbor_mating s)
             (length (pop s)) 1 (n_parents w) (Some [i]) e of
        Inl err \<Rightarrow> Inl err
      | Inr (P, e1) \<Rightarrow>
          (case mating_do w (heap s) (pop s) 1 P e1 of
             ((offs, h1), e2) \<Rightarrow>
               (case offs of
                  [] \<Rightarrow> Inl IndexError
                | off # _ \<Rightarrow>
                    (case evaluator_eval w h1 [off] e2 of
                       (h2, e3) \<Rightarrow>
                         (case update_ideal (ideal s) [F (h2 off)] of
                            Inl err \<Rightarrow> Inl err
                          | Inr z \<Rightarrow>
                              (case MOEAD_replace (s\<lparr>heap := h2, ideal := z\<rparr>) i off of
                                 Inl err \<Rightarrow> Inl err
                               | Inr s' \<Rightarrow> advance_loop w rest s' e3))))))"

definition MOEAD_advance :: "'e collaborators \<Rightarrow> moead \<Rightarrow> 'e \<Rightarrow> error + (moead \<times> 'e)" where
  "MOEAD_advance w s e =
     (case np_permutation w (length (pop s)) e of (order, e0) \<Rightarrow> advance_loop w order s e0)"

section \<open>The batched engine\<close>

text \<open>\<^verbatim>\<open>off.set("i", I)\<close>: every offspring is tagged with its anchor.\<close>

definition set_tags :: "heap \<Rightarrow> ref list \<Rightarrow> nat list \<Rightarrow> heap" where
  "set_tags h refs tags = fold (\<lambda>(r, t) h'. h'(r := (h' r)\<lparr>tag_i := Some t\<rparr>)) (zip refs tags) h"

text \<open>
  \<^verbatim>\<open>ParallelMOEAD._infill\<close>. The index \<^verbatim>\<open>off[np.arange(pop_size) * n_offsprings]\<close> raises
  IndexError out of range. The tags are set one per offspring; the model stops with an
  error where the numbers of offspring and of anchors differ.
\<close>

definition ParallelMOEAD_infill ::
  "'e collaborators \<Rightarrow> moead \<Rightarrow> 'e \<Rightarrow> error + ((ref list \<times> heap) \<times> 'e)" where
  "ParallelMOEAD_infill w s e =
     (case np_permutation w (length (pop s)) e of
        (I, e0) \<Rightarrow>
          (case NeighborhoodSelection_do w (neighbors s) (prob_neighbor_mating s)
                  (length (pop s)) (pop_size s) (n_parents w) (Some I) e0 of
             Inl err \<Rightarrow> Inl err
           | Inr (P, e1) \<Rightarrow>
               (case mating_do w (heap s) (pop s) \<infinity> P e1 of
                  ((off, h1), e2) \<Rightarrow>
                    (let idx = map (\<lambda>k. k * n_offsprings w) [0..<pop_size s] in
                     if \<not> list_all (\<lambda>q. q < length off) idx then Inl IndexError
                     else if length idx \<noteq> length I then Inl ValueError
                     else Inr ((map (\<lambda>q. off ! q) idx,
                                set_tags h1 (map (\<lambda>q. off ! q) idx) I), e2)))))"

text \<open>
  The loop of \<^verbatim>\<open>ParallelMOEAD._advance\<close> over the batch; an offspring without a tag has
  no anchor to index the neighbor table with.
\<close>

fun replace_infills :: "moead \<Rightarrow> ref list \<Rightarrow> error + moead" where
  "replace_infills s [] = Inr s"
| "replace_infills s (off # rest) =
     (case tag_i (heap s off) of
        None \<Rightarrow> Inl TypeError
      | Some i \<Rightarrow>
          (case MOEAD_replace s i off of
             Inl err \<Rightarrow> Inl err
           | Inr s' \<Rightarrow> replace_infills s' rest))"

definition ParallelMOEAD_advance :: "moead \<Rightarrow> ref list \<Rightarrow> error + moead" where
  "ParallelMOEAD_advance s infills =
     (case update_ideal (ideal s) (map (\<lambda>r. F (heap s r)) infills) of
        Inl err \<Rightarrow> Inl err
      | Inr z \<Rightarrow> replace_infills (s\<lparr>ideal := z\<rparr>) infills)"

section \<open>Generations\<close>

text \<open>
  Modelled from the spec: the generation loop belongs to the framework
  (\<^verbatim>\<open>pymoo.algorithms.base.genetic\<close>, not part of \<^verbatim>\<open>moead.py\<close>). A generation of the batched
  engine creates the batch (\<^verbatim>\<open>_infill\<close>), has the evaluator compute "the whole batch's
  objective functions", and advances with it. A generation of the sequential engine is
  \<^verbatim>\<open>_advance\<close> alone, its \<^verbatim>\<open>_infill\<close> being empty.
\<close>

definition ParallelMOEAD_next :: "'e collaborators \<Rightarrow> moead \<Rightarrow> 'e \<Rightarrow> error + (moead \<times> 'e)" where
  "ParallelMOEAD_next w s e =
     (case ParallelMOEAD_infill w s e of
        Inl err \<Rightarrow> Inl err
      | Inr ((infills, h1), e1) \<Rightarrow>
          (case evaluator_eval w h1 infills e1 of
             (h2, e2) \<Rightarrow>
               (case ParallelMOEAD_advance (s\<lparr>heap := h2\<rparr>) infills of
                  Inl err \<Rightarrow> Inl err
                | Inr s' \<Rightarrow> Inr (s', e2))))"

fun generations ::
  "(moead \<Rightarrow> 'e \<Rightarrow> error + (moead \<times> 'e)) \<Rightarrow> nat \<Rightarrow> moead \<Rightarrow> 'e \<Rightarrow> error + (moead \<times> 'e)" where
  "generations step 0 s e = Inr (s, e)"
| "generations step (Suc n) s e =
     (case step s e of
        Inl err \<Rightarrow> Inl err
      | Inr (s', e') \<Rightarrow> generations step n s' e')"

section \<open>The batched advance in the spec's words\<close>

text \<open>
  The specification's steps 5 and 6 of the batched engine: update the ideal point once
  from the whole batch, then run the replacement step for each tagged offspring in the
  batch's order, every one of them with that batch-updated ideal point \<open>z\<close>.
\<close>

fun replace_with_ideal :: "vec \<Rightarrow> moead \<Rightarrow> ref list \<Rightarrow> error + moead" where
  "replace_with_ideal z s [] = Inr s"
| "replace_with_ideal z s (off # rest) =
     (case tag_i (heap s off) of
        None \<Rightarrow> Inl TypeError
      | Some i \<Rightarrow>
          (case MOEAD_replace (s\<lparr>ideal := z\<rparr>) i off of
             Inl err \<Rightarrow> Inl err
           | Inr s' \<Rightarrow> replace_with_ideal z s' rest))"

definition batched_advance_spec :: "moead \<Rightarrow> ref list \<Rightarrow> error + moead" where
  "batched_advance_spec s infills =
     (case update_ideal (ideal s) (map (\<lambda>r. F (heap s r)) infills) of
        Inl err \<Rightarrow> Inl err
      | Inr z \<Rightarrow> replace_with_ideal z (s\<lparr>ideal := z\<rparr>) infills)"

text \<open>The sizes the data model ties together.\<close>

definition size_invariant :: "moead \<Rightarrow> bool" where
  "size_invariant s \<longleftrightarrow>
     length (pop s) = length (ref_dirs s) \<and> length (neighbors s) = length (ref_dirs s) \<and>
     pop_size s = length (ref_dirs s)"

text \<open>The attributes no generation touches, and the population's length.\<close>

definition same_shape :: "moead \<Rightarrow> moead \<Rightarrow> bool" where
  "same_shape s s' \<longleftrightarrow>
     ref_dirs s' = ref_dirs s \<and> neighbors s' = neighbors s \<and> pop_size s' = pop_size s \<and>
     n_neighbors s' = n_neighbors s \<and> the_decomposition s' = the_decomposition s \<and>
     length (pop s') = length (pop s)"

section \<open>A worked example\<close>

text \<open>
  Three directions of two objectives, a weighted sum of the distances to the ideal point
  as scalarizing function, and a population with the objective vectors \<open>(1,5)\<close>, \<open>(3,2)\<close>
  and \<open>(4,4)\<close>, whose ideal point is \<open>(1,2)\<close>.
\<close>

definition example_scalarizer :: scalarizer where
  "example_scalarizer f w z = sum_list (map2 (*) w (map2 (-) f z))"

definition example_heap :: heap where
  "example_heap =
     (\<lambda>r. \<lparr>X = [], F = [], tag_i = None\<rparr>)
       (10 := \<lparr>X = [0], F = [1, 5], tag_i = None\<rparr>,
        11 := \<lparr>X = [1], F = [3, 2], tag_i = None\<rparr>,
        12 := \<lparr>X = [2], F = [4, 4], tag_i = None\<rparr>,
        20 := \<lparr>X = [3], F = [2, 2], tag_i = Some 1\<rparr>,
        21 := \<lparr>X = [2], F = [4, 4], tag_i = Some 2\<rparr>,
        22 := \<lparr>X = [4], F = [0, 6], tag_i = Some 0\<rparr>)"

definition example_state :: moead where
  "example_state =
     \<lparr>ref_dirs = [[1, 0], [1/2, 1/2], [0, 1]], n_neighbors = 3, prob_neighbor_mating = 9/10,
      decomposition = Name ''auto'', neighbors = [[0, 1, 2], [1, 0, 2], [2, 1, 0]], pop_size = 3,
      pop = [10, 11, 12], heap = example_heap, ideal = [1, 2],
      the_decomposition = example_scalarizer\<rparr>"

definition constrained_problem :: problem where
  "constrained_problem = \<lparr>n_obj = 2, has_constraints = True\<rparr>"

definition two_objectives :: problem where
  "two_objectives = \<lparr>n_obj = 2, has_constraints = False\<rparr>"

definition three_objectives :: problem where
  "three_objectives = \<lparr>n_obj = 3, has_constraints = False\<rparr>"

text \<open>Stand-ins for the factory's two strategies.\<close>

definition example_tchebi :: scalarizer where
  "example_tchebi f w z = foldr max (map2 (\<lambda>wk d. wk * \<bar>d\<bar>) w (map2 (-) f z)) 0"

definition example_factory :: "string \<Rightarrow> error + scalarizer" where
  "example_factory name =
     (if name = ''tchebi'' then Inr example_tchebi
      else if name = ''pbi'' then Inr example_scalarizer
      else Inl (UnknownDecomposition name))"

definition example_config :: moead_config where
  "example_config = moead_config.truncate example_state"

text \<open>
  Collaborators for the example. The environment is a counter. The generator alternates:
  \<open>0\<close> and the identity permutation at an even count, \<open>1\<close> and the reversed one at an odd
  count. Mating gives every parent tuple two new individuals, with the decision vectors of
  the first and of the last parent; the evaluator computes \<open>(x, 2 - x)\<close>.
\<close>

definition example_objective :: "vec \<Rightarrow> vec" where
  "example_objective x = (case x of [] \<Rightarrow> [] | a # _ \<Rightarrow> [a, 2 - a])"

definition example_world :: "nat collaborators" where
  "example_world =
     \<lparr>np_random = (\<lambda>e. (if even e then 0 else 1, Suc e)),
      np_permutation = (\<lambda>n e. (if even e then [0..<n] else rev [0..<n], Suc e)),
      n_parents = 2,
      n_offsprings = 2,
      mating_do = (\<lambda>h pop n P e.
        ((concat (map (\<lambda>q. [100 + 10 * e + 2 * q, 101 + 10 * e + 2 * q]) [0..<length P]),
          fold (\<lambda>q h'. h'
              (100 + 10 * e + 2 * q := \<lparr>X = X (h (pop ! hd (P ! q))), F = [], tag_i = None\<rparr>,
               101 + 10 * e + 2 * q := \<lparr>X = X (h (pop ! last (P ! q))), F = [], tag_i = None\<rparr>))
            [0..<length P] h),
         Suc e)),
      evaluator_eval = (\<lambda>h refs e.
        (fold (\<lambda>r h'. h'(r := (h' r)\<lparr>F := example_objective (X (h' r))\<rparr>)) refs h, e))\<rparr>"


lemmas example_defs = example_state_def example_heap_def example_scalarizer_def

lemmas example_world_defs = example_world_def example_objective_def

section \<open>Rounding to doubles\<close>

lemma round_even_of_int: "round_even (of_int n) = n"
  by (simp add: round_even_def)

lemma round_even_le: "y \<le> of_int n \<Longrightarrow> round_even y \<le> n"
proof -
  assume y: "y \<le> of_int n"
  show ?thesis
  proof (cases "y = of_int n")
    case True
    then show ?thesis by (simp add: round_even_of_int)
  next
    case False
    with y have "y < of_int n" by simp
    then have "\<lfloor>y\<rfloor> < n" by (simp add: floor_less_iff)
    then show ?thesis by (simp add: round_even_def Let_def)
  qed
qed

lemma round_even_ge: "of_int n \<le> y \<Longrightarrow> n \<le> round_even y"
proof -
  assume "of_int n \<le> y"
  then have "n \<le> \<lfloor>y\<rfloor>" by (simp add: le_floor_iff)
  then show ?thesis by (simp add: round_even_def Let_def)
qed


lemma fl_zero: "fl 0 = 0"
  by (simp add: fl_def)


text \<open>Rounding in the binade of exponent \<open>e\<close>.\<close>

lemma fl_binade:
  assumes lo: "2 powr of_int e \<le> \<bar>x\<bar>" and hi: "\<bar>x\<bar> < 2 powr of_int (e + 1)"
    and e: "- 1022 \<le> e"
  shows "fl x = of_int (round_even (x / 2 powr of_int (e - 52))) * 2 powr of_int (e - 52)"
proof -
  have pos: "0 < \<bar>x\<bar>"
    using lo by (smt (verit) powr_gt_zero)
  have "\<lfloor>log 2 \<bar>x\<bar>\<rfloor> = e"
    using lo hi pos by (simp add: floor_log_eq_powr_iff)
  with e pos show ?thesis
    by (simp add: fl_def Let_def max_def)
qed

lemma fl_pow2:
  assumes "- 1022 \<le> k"
  shows "fl (2 powr of_int k) = 2 powr of_int k" and "fl (- (2 powr of_int k)) = - (2 powr of_int k)"
proof -
  have "(2::real) powr of_int k / 2 powr of_int (k - 52) = 2 powr (real 52)"
    by (simp flip: powr_diff)
  also have "\<dots> = 2 ^ 52"
    by (rule powr_realpow) simp
  finally have q: "(2::real) powr of_int k / 2 powr of_int (k - 52) = of_int (2 ^ 52)"
    by simp
  have b1: "(2::real) powr of_int k \<le> \<bar>2 powr of_int k\<bar>" by simp
  have b2: "\<bar>(2::real) powr of_int k\<bar> < 2 powr of_int (k + 1)" by simp
  have "fl (2 powr of_int k) = of_int (2 ^ 52) * 2 powr of_int (k - 52)"
    unfolding fl_binade[OF b1 b2 assms] q round_even_of_int ..
  also have "\<dots> = 2 powr of_int k / 2 powr of_int (k - 52) * 2 powr of_int (k - 52)"
    unfolding q ..
  finally show "fl (2 powr of_int k) = 2 powr of_int k"
    by simp
  have b1': "(2::real) powr of_int k \<le> \<bar>- (2 powr of_int k)\<bar>" by simp
  have b2': "\<bar>- ((2::real) powr of_int k)\<bar> < 2 powr of_int (k + 1)" by simp
  have q': "- ((2::real) powr of_int k) / 2 powr of_int (k - 52) = of_int (- (2 ^ 52))"
    using q by simp
  have "fl (- (2 powr of_int k)) = of_int (- (2 ^ 52)) * 2 powr of_int (k - 52)"
    unfolding fl_binade[OF b1' b2' assms] q' round_even_of_int ..
  also have "\<dots> = - (2 powr of_int k) / 2 powr of_int (k - 52) * 2 powr of_int (k - 52)"
    unfolding q' ..
  finally show "fl (- (2 powr of_int k)) = - (2 powr of_int k)"
    by simp
qed


lemma fl_le_in_binade:
  assumes "2 powr of_int e \<le> x" "x < 2 powr of_int (e + 1)" "- 1022 \<le> e"
    and "x \<le> of_int m * 2 powr of_int (e - 52)"
  shows "fl x \<le> of_int m * 2 powr of_int (e - 52)"
proof -
  have x: "0 < x" using assms(1) by (smt (verit) powr_gt_zero)
  have "x / 2 powr of_int (e - 52) \<le> of_int m"
    using assms(4) by (simp add: pos_divide_le_eq)
  then have "round_even (x / 2 powr of_int (e - 52)) \<le> m"
    by (rule round_even_le)
  then have "real_of_int (round_even (x / 2 powr of_int (e - 52))) * 2 powr of_int (e - 52)
      \<le> real_of_int m * 2 powr of_int (e - 52)"
    by (simp add: mult_right_mono)
  moreover have "fl x = of_int (round_even (x / 2 powr of_int (e - 52))) * 2 powr of_int (e - 52)"
    using assms(1,2,3) x by (intro fl_binade) simp_all
  ultimately show ?thesis by simp
qed

lemma fl_ge_in_binade:
  assumes "2 powr of_int e \<le> x" "x < 2 powr of_int (e + 1)" "- 1022 \<le> e"
    and "of_int m * 2 powr of_int (e - 52) \<le> x"
  shows "of_int m * 2 powr of_int (e - 52) \<le> fl x"
proof -
  have x: "0 < x" using assms(1) by (smt (verit) powr_gt_zero)
  have "of_int m \<le> x / 2 powr of_int (e - 52)"
    using assms(4) by (simp add: pos_le_divide_eq)
  then have "m \<le> round_even (x / 2 powr of_int (e - 52))"
    by (rule round_even_ge)
  then have "real_of_int m * 2 powr of_int (e - 52)
      \<le> real_of_int (round_even (x / 2 powr of_int (e - 52))) * 2 powr of_int (e - 52)"
    by (simp add: mult_right_mono)
  moreover have "fl x = of_int (round_even (x / 2 powr of_int (e - 52))) * 2 powr of_int (e - 52)"
    using assms(1,2,3) x by (intro fl_binade) simp_all
  ultimately show ?thesis by simp
qed

lemma fl_values:
  "fl 1 = 1" "fl 2 = 2" "fl (1/2) = 1/2" "fl (1/4) = 1/4"
  "fl (- 1) = - 1" "fl (- (1/2)) = - (1/2)"
  using fl_pow2[of 0] fl_pow2[of 1] fl_pow2[of "- 1"] fl_pow2[of "- 2"]
  by (simp_all add: powr_minus_divide)





section \<open>Computed distances\<close>

lemma euclidean_self: "euclidean u u = 0"
proof -
  have "foldl (\<lambda>s (x, y). fl (s + fl ((fl (x - y))\<^sup>2))) 0 (zip u u) = 0"
    by (induction u) (simp_all add: fl_zero)
  then show ?thesis by (simp add: euclidean_def fl_zero)
qed



text \<open>The rounded square roots of the example: \<open>1/2 \<le> fl (sqrt (1/2)) \<le> 3/4\<close> and \<open>5/4 \<le> fl (sqrt 2)\<close>.\<close>

lemma fl_sqrt_half: "1/2 \<le> fl (sqrt (1/2))" "fl (sqrt (1/2)) \<le> 3/4"
proof -
  have half: "(2::real) powr of_int (- 1) = 1/2"
    by (simp add: powr_minus_divide)
  have u: "(2::real) powr of_int (- 1 - 52) = 1 / 2 ^ 53"
    by (simp add: powr_minus_divide)
  have s: "1/2 \<le> sqrt (1/2)"
    by (rule real_le_rsqrt) (simp add: power2_eq_square)
  have lo: "(2::real) powr of_int (- 1) \<le> sqrt (1/2)"
    unfolding half by (rule s)
  have hi: "sqrt (1/2) < (2::real) powr of_int (- 1 + 1)"
    by simp
  have e: "- 1022 \<le> (- 1 :: int)" by simp
  have a: "real_of_int (2 ^ 52) * 2 powr of_int (- 1 - 52) = 1/2"
    unfolding u by simp
  have b: "real_of_int (3 * 2 ^ 51) * 2 powr of_int (- 1 - 52) = 3/4"
    unfolding u by simp
  have "real_of_int (2 ^ 52) * 2 powr of_int (- 1 - 52) \<le> sqrt (1/2)"
    unfolding a by (rule s)
  from fl_ge_in_binade[OF lo hi e this] show "1/2 \<le> fl (sqrt (1/2))"
    unfolding a .
  have "sqrt (1/2) \<le> real_of_int (3 * 2 ^ 51) * 2 powr of_int (- 1 - 52)"
    unfolding b by (rule real_le_lsqrt) (simp_all add: power2_eq_square)
  from fl_le_in_binade[OF lo hi e this] show "fl (sqrt (1/2)) \<le> 3/4"
    unfolding b .
qed

lemma fl_sqrt_two: "5/4 \<le> fl (sqrt 2)"
proof -
  have lo: "(2::real) powr of_int 0 \<le> sqrt 2"
    by simp
  have "sqrt 2 < (2::real)"
    by (rule real_less_lsqrt) simp_all
  then have hi: "sqrt 2 < (2::real) powr of_int (0 + 1)"
    by simp
  have e: "- 1022 \<le> (0 :: int)" by simp
  have u: "(2::real) powr of_int (0 - 52) = 1 / 2 ^ 52"
    by (simp add: powr_minus_divide)
  have b: "real_of_int (5 * 2 ^ 50) * 2 powr of_int (0 - 52) = 5/4"
    unfolding u by simp
  have "real_of_int (5 * 2 ^ 50) * 2 powr of_int (0 - 52) \<le> sqrt 2"
    unfolding b by (rule real_le_rsqrt) (simp add: power2_eq_square)
  from fl_ge_in_binade[OF lo hi e this] show ?thesis
    unfolding b .
qed

lemma example_order:
  "0 \<le> fl (sqrt (1/2))" "\<not> fl (sqrt (1/2)) \<le> 0" "fl (sqrt (1/2)) \<noteq> 0"
  "0 \<le> fl (sqrt 2)" "\<not> fl (sqrt 2) \<le> 0" "fl (sqrt 2) \<noteq> 0"
  "fl (sqrt (1/2)) \<le> fl (sqrt 2)" "\<not> fl (sqrt 2) \<le> fl (sqrt (1/2))"
  using fl_sqrt_half fl_sqrt_two by simp_all

lemma example_distances:
  "euclidean [1, 0] [1/2, 1/2] = fl (sqrt (1/2))"
  "euclidean [1/2, 1/2] [1, 0] = fl (sqrt (1/2))"
  "euclidean [1/2, 1/2] [0, 1] = fl (sqrt (1/2))"
  "euclidean [0, 1] [1/2, 1/2] = fl (sqrt (1/2))"
  "euclidean [1, 0] [0, 1] = fl (sqrt 2)"
  "euclidean [0, 1] [1, 0] = fl (sqrt 2)"
  by (simp_all add: euclidean_def fl_values fl_zero power2_eq_square)


section \<open>Properties of replacement\<close>

lemma length_decomposition_do_one:
  "length (decomposition_do g [f] ws z) = length ws"
  by (simp add: decomposition_do_def)

lemma length_decomposition_do_many:
  "length Fs = length ws \<Longrightarrow> length (decomposition_do g Fs ws z) = length ws"
  by (simp add: decomposition_do_def)

lemma nth_decomposition_do_one:
  "j < length ws \<Longrightarrow> decomposition_do g [f] ws z ! j = g f (ws ! j) z"
  by (simp add: decomposition_do_def)

lemma nth_decomposition_do_many:
  assumes "length Fs = length ws" "j < length ws"
  shows "decomposition_do g Fs ws z ! j = g (Fs ! j) (ws ! j) z"
proof (cases "length Fs = 1")
  case True
  with assms have "j = 0" by simp
  with True assms show ?thesis
    by (cases Fs) (simp_all add: decomposition_do_def)
next
  case False
  with assms show ?thesis by (simp add: decomposition_do_def)
qed

lemma length_fold_update:
  "length (fold (\<lambda>j p. p[N ! j := v]) I p) = length p"
  by (induction I arbitrary: p) simp_all

lemma nth_fold_update:
  "n < length p \<Longrightarrow>
   fold (\<lambda>j p. p[N ! j := v]) I p ! n = (if n \<in> (\<lambda>j. N ! j) ` set I then v else p ! n)"
proof (induction I arbitrary: p)
  case Nil
  then show ?case by simp
next
  case (Cons j I)
  then show ?case
    by (cases "N ! j < length p") (auto simp: nth_list_update)
qed

lemma set_np_where_less:
  "set (np_where_less a b) = {j. j < length a \<and> a ! j < b ! j}"
  by (auto simp: np_where_less_def)

lemma replace_result:
  assumes "i < length (neighbors s)"
    and "list_all (\<lambda>n. n < length (pop s) \<and> n < length (ref_dirs s)) (neighbors s ! i)"
  shows "MOEAD_replace s i off =
     Inr (s\<lparr>pop := fold (\<lambda>j p. p[neighbors s ! i ! j := off])
       (np_where_less
          (decomposition_do (the_decomposition s) [F (heap s off)]
             (map (\<lambda>n. ref_dirs s ! n) (neighbors s ! i)) (ideal s))
          (decomposition_do (the_decomposition s)
             (map (\<lambda>n. F (heap s (pop s ! n))) (neighbors s ! i))
             (map (\<lambda>n. ref_dirs s ! n) (neighbors s ! i)) (ideal s)))
       (pop s)\<rparr>)"
  using assms by (simp add: MOEAD_replace_def Let_def)

lemma replace_winners:
  "set (np_where_less
          (decomposition_do (the_decomposition s) [F (heap s off)]
             (map (\<lambda>n. ref_dirs s ! n) N) (ideal s))
          (decomposition_do (the_decomposition s)
             (map (\<lambda>n. F (heap s (pop s ! n))) N)
             (map (\<lambda>n. ref_dirs s ! n) N) (ideal s)))
     = {j. j < length N \<and> offspring_better s off (N ! j)}"
  by (auto simp: set_np_where_less length_decomposition_do_one nth_decomposition_do_one
      nth_decomposition_do_many offspring_better_def)

text \<open>
  Claim C1. In the replacement step for the subproblem \<open>i\<close> with neighbor row \<open>N\<close>, the
  slot of every neighbor position \<open>j\<close> holds the offspring afterwards if the offspring's
  scalarized value under that neighbor's weight vector and the current ideal point is
  strictly less than the incumbent's under the same weight vector and ideal point, and
  still holds the incumbent otherwise, in particular on a tie. Slots outside the row, the
  heap and the ideal point are unchanged. Both engines replace through this one function.
  The rows of the neighbor table are distinct indices of the population.
\<close>

theorem replace_iff_strictly_better:
  assumes "i < length (neighbors s)"
    and "list_all (\<lambda>n. n < length (pop s) \<and> n < length (ref_dirs s)) (neighbors s ! i)"
    and "distinct (neighbors s ! i)"
  shows "\<exists>s'. MOEAD_replace s i off = Inr s' \<and>
     (\<forall>j < length (neighbors s ! i).
        pop s' ! (neighbors s ! i ! j) =
          (if offspring_better s off (neighbors s ! i ! j) then off
           else pop s ! (neighbors s ! i ! j))) \<and>
     (\<forall>n < length (pop s). n \<notin> set (neighbors s ! i) \<longrightarrow> pop s' ! n = pop s ! n) \<and>
     length (pop s') = length (pop s) \<and> heap s' = heap s \<and> ideal s' = ideal s"
proof -
  let ?N = "neighbors s ! i"
  let ?I = "np_where_less
          (decomposition_do (the_decomposition s) [F (heap s off)]
             (map (\<lambda>n. ref_dirs s ! n) ?N) (ideal s))
          (decomposition_do (the_decomposition s)
             (map (\<lambda>n. F (heap s (pop s ! n))) ?N)
             (map (\<lambda>n. ref_dirs s ! n) ?N) (ideal s))"
  let ?s' = "s\<lparr>pop := fold (\<lambda>j p. p[?N ! j := off]) ?I (pop s)\<rparr>"
  have res: "MOEAD_replace s i off = Inr ?s'"
    using assms(1,2) by (rule replace_result)
  have I: "set ?I = {j. j < length ?N \<and> offspring_better s off (?N ! j)}"
    by (rule replace_winners)
  have bound: "\<And>j. j < length ?N \<Longrightarrow> ?N ! j < length (pop s)"
    using assms(2) by (simp add: list_all_length)
  have a: "pop ?s' ! (?N ! j) = (if offspring_better s off (?N ! j) then off else pop s ! (?N ! j))"
    if j: "j < length ?N" for j
  proof -
    have "(?N ! j \<in> (\<lambda>k. ?N ! k) ` set ?I) \<longleftrightarrow> offspring_better s off (?N ! j)"
      using j assms(3) by (auto simp: I nth_eq_iff_index_eq)
    then show ?thesis
      using bound[OF j] by (simp add: nth_fold_update)
  qed
  have b: "pop ?s' ! n = pop s ! n" if "n < length (pop s)" "n \<notin> set ?N" for n
  proof -
    have "n \<notin> (\<lambda>k. ?N ! k) ` set ?I"
      using that(2) by (auto simp: I)
    then show ?thesis using that(1) by (simp add: nth_fold_update)
  qed
  show ?thesis
    using res a b by (intro exI[of _ ?s']) (simp add: length_fold_update)
qed

theorem replace_iff_strictly_better_witness:
  "1 < length (neighbors example_state) \<and>
   list_all (\<lambda>n. n < length (pop example_state) \<and> n < length (ref_dirs example_state))
     (neighbors example_state ! 1) \<and>
   distinct (neighbors example_state ! 1) \<and>
   offspring_better example_state 20 1 \<and> \<not> offspring_better example_state 20 0 \<and>
   offspring_better example_state 20 2 \<and>
   MOEAD_replace example_state 1 20 = Inr (example_state\<lparr>pop := [10, 20, 20]\<rparr>) \<and>
   (\<exists>s'. MOEAD_replace example_state 1 20 = Inr s' \<and>
     (\<forall>j < length (neighbors example_state ! 1).
        pop s' ! (neighbors example_state ! 1 ! j) =
          (if offspring_better example_state 20 (neighbors example_state ! 1 ! j) then 20
           else pop example_state ! (neighbors example_state ! 1 ! j))) \<and>
     (\<forall>n < length (pop example_state).
        n \<notin> set (neighbors example_state ! 1) \<longrightarrow> pop s' ! n = pop example_state ! n) \<and>
     length (pop s') = length (pop example_state) \<and> heap s' = heap example_state \<and>
     ideal s' = ideal example_state)"
proof -
  have h1: "1 < length (neighbors example_state)"
    by (simp add: example_state_def)
  have h2: "list_all (\<lambda>n. n < length (pop example_state) \<and> n < length (ref_dirs example_state))
     (neighbors example_state ! 1)"
    by (simp add: example_state_def)
  have h3: "distinct (neighbors example_state ! 1)"
    by (simp add: example_state_def)
  have b1: "offspring_better example_state 20 1"
    by (simp add: offspring_better_def example_defs)
  have b2: "\<not> offspring_better example_state 20 0"
    by (simp add: offspring_better_def example_defs)
  have b3: "offspring_better example_state 20 2"
    by (simp add: offspring_better_def example_defs)
  have r: "MOEAD_replace example_state 1 20 = Inr (example_state\<lparr>pop := [10, 20, 20]\<rparr>)"
    by (simp add: MOEAD_replace_def example_defs decomposition_do_def np_where_less_def
        upt_conv_Cons Let_def)
  note c = replace_iff_strictly_better[OF h1 h2 h3, of 20]
  show ?thesis
    by (intro conjI h1 h2 h3 b1 b2 b3 r c)
qed

text \<open>A tie does not replace: a clone of the incumbent of slot 2 replaces nothing.\<close>

lemma replace_tie_example:
  "F (example_heap 21) = F (example_heap 12) \<and>
   MOEAD_replace example_state 2 21 = Inr example_state"
  by (simp add: MOEAD_replace_def example_defs decomposition_do_def np_where_less_def
      upt_conv_Cons Let_def)

text \<open>
  Claim C10. When the offspring beats the incumbents at two positions \<open>j\<close> and \<open>k\<close> of the
  neighbor row, both slots hold the offspring's reference afterwards and no individual
  has been copied (the heap is unchanged): a later write to the offspring is read through
  both slots.
\<close>

theorem replace_shares_offspring:
  assumes "i < length (neighbors s)"
    and "list_all (\<lambda>n. n < length (pop s) \<and> n < length (ref_dirs s)) (neighbors s ! i)"
    and "j < length (neighbors s ! i)" and "k < length (neighbors s ! i)"
    and "offspring_better s off (neighbors s ! i ! j)"
    and "offspring_better s off (neighbors s ! i ! k)"
  shows "\<exists>s'. MOEAD_replace s i off = Inr s' \<and>
     pop s' ! (neighbors s ! i ! j) = off \<and> pop s' ! (neighbors s ! i ! k) = off \<and>
     heap s' = heap s \<and>
     (\<forall>ind. ((heap s')(off := ind)) (pop s' ! (neighbors s ! i ! j)) = ind \<and>
            ((heap s')(off := ind)) (pop s' ! (neighbors s ! i ! k)) = ind)"
proof -
  let ?N = "neighbors s ! i"
  let ?I = "np_where_less
          (decomposition_do (the_decomposition s) [F (heap s off)]
             (map (\<lambda>n. ref_dirs s ! n) ?N) (ideal s))
          (decomposition_do (the_decomposition s)
             (map (\<lambda>n. F (heap s (pop s ! n))) ?N)
             (map (\<lambda>n. ref_dirs s ! n) ?N) (ideal s))"
  let ?s' = "s\<lparr>pop := fold (\<lambda>j p. p[?N ! j := off]) ?I (pop s)\<rparr>"
  have res: "MOEAD_replace s i off = Inr ?s'"
    using assms(1,2) by (rule replace_result)
  have I: "set ?I = {j. j < length ?N \<and> offspring_better s off (?N ! j)}"
    by (rule replace_winners)
  have won: "pop ?s' ! (?N ! q) = off" if "q < length ?N" "offspring_better s off (?N ! q)" for q
  proof -
    have "?N ! q < length (pop s)"
      using assms(2) that(1) by (simp add: list_all_length)
    moreover have "?N ! q \<in> (\<lambda>k. ?N ! k) ` set ?I"
      using that by (simp add: I)
    ultimately show ?thesis by (simp add: nth_fold_update)
  qed
  show ?thesis
    using res won[OF assms(3,5)] won[OF assms(4,6)] by (intro exI[of _ ?s']) simp
qed

theorem replace_shares_offspring_witness:
  "1 < length (neighbors example_state) \<and>
   list_all (\<lambda>n. n < length (pop example_state) \<and> n < length (ref_dirs example_state))
     (neighbors example_state ! 1) \<and>
   0 < length (neighbors example_state ! 1) \<and> 2 < length (neighbors example_state ! 1) \<and>
   offspring_better example_state 20 (neighbors example_state ! 1 ! 0) \<and>
   offspring_better example_state 20 (neighbors example_state ! 1 ! 2) \<and>
   (\<exists>s'. MOEAD_replace example_state 1 20 = Inr s' \<and>
     pop s' ! (neighbors example_state ! 1 ! 0) = 20 \<and>
     pop s' ! (neighbors example_state ! 1 ! 2) = 20 \<and>
     heap s' = heap example_state \<and>
     (\<forall>ind. ((heap s')(20 := ind)) (pop s' ! (neighbors example_state ! 1 ! 0)) = ind \<and>
            ((heap s')(20 := ind)) (pop s' ! (neighbors example_state ! 1 ! 2)) = ind))"
proof -
  have h1: "1 < length (neighbors example_state)"
    by (simp add: example_state_def)
  have h2: "list_all (\<lambda>n. n < length (pop example_state) \<and> n < length (ref_dirs example_state))
     (neighbors example_state ! 1)"
    by (simp add: example_state_def)
  have h3: "0 < length (neighbors example_state ! 1)"
    by (simp add: example_state_def)
  have h4: "2 < length (neighbors example_state ! 1)"
    by (simp add: example_state_def)
  have h5: "offspring_better example_state 20 (neighbors example_state ! 1 ! 0)"
    by (simp add: offspring_better_def example_defs)
  have h6: "offspring_better example_state 20 (neighbors example_state ! 1 ! 2)"
    by (simp add: offspring_better_def example_defs)
  note c = replace_shares_offspring[OF h1 h2 h3 h4 h5 h6]
  show ?thesis
    by (intro conjI h1 h2 h3 h4 h5 h6 c)
qed

section \<open>Properties of setup\<close>

text \<open>
  Claim C7. Setup fails, with the assertion's error, for every problem whose
  constraint-presence flag is set, and returns normally for every problem without
  constraints.
\<close>

theorem setup_fails_iff_constraints:
  "(has_constraints p \<longrightarrow> (\<exists>msg. MOEAD_setup p = Inl (AssertionError msg))) \<and>
   (\<not> has_constraints p \<longrightarrow> MOEAD_setup p = Inr ()) \<and>
   (isl (MOEAD_setup p) \<longleftrightarrow> has_constraints p)"
  by (simp add: MOEAD_setup_def)

theorem setup_fails_iff_constraints_witness:
  "has_constraints constrained_problem \<and>
   (\<exists>msg. MOEAD_setup constrained_problem = Inl (AssertionError msg)) \<and>
   \<not> has_constraints two_objectives \<and> MOEAD_setup two_objectives = Inr ()"
  using setup_fails_iff_constraints[of constrained_problem]
    setup_fails_iff_constraints[of two_objectives]
  by (simp add: constrained_problem_def two_objectives_def)

lemma initial_ideal_example:
  "(case np_vstack [[1, 5], [3, 2], [4, 4]] of Inl err \<Rightarrow> Inl err | Inr rows \<Rightarrow> np_min_axis0 rows)
     = Inr [1, 2]"
  by (simp add: np_vstack_def)

text \<open>
  Claim C8. Where \<^verbatim>\<open>_post_initialize\<close> returns, the resolved decomposition is what the
  factory gives for \<^verbatim>\<open>tchebi\<close> when the option is the string \<^verbatim>\<open>auto\<close> and the problem has at
  most two objectives, what it gives for \<^verbatim>\<open>pbi\<close> when the option is \<^verbatim>\<open>auto\<close> and the problem
  has more; any other string is passed to the factory as it is, and an instance is used
  as supplied.
\<close>

theorem post_initialize_decomposition:
  assumes "MOEAD_post_initialize gd p c pop0 h = Inr s"
  shows "(decomposition c = Name ''auto'' \<longrightarrow>
            gd (if n_obj p \<le> 2 then ''tchebi'' else ''pbi'') = Inr (the_decomposition s)) \<and>
         (\<forall>name. decomposition c = Name name \<longrightarrow> name \<noteq> ''auto'' \<longrightarrow>
            gd name = Inr (the_decomposition s)) \<and>
         (\<forall>g. decomposition c = Instance g \<longrightarrow> the_decomposition s = g)"
  using assms
  by (cases "decomposition c")
    (auto simp: MOEAD_post_initialize_def moead_config.extend_def
      split: sum.splits if_splits)

theorem post_initialize_decomposition_witness:
  "MOEAD_post_initialize example_factory two_objectives example_config [10, 11, 12] example_heap
     = Inr (example_state\<lparr>the_decomposition := example_tchebi\<rparr>) \<and>
   decomposition example_config = Name ''auto'' \<and> n_obj two_objectives \<le> 2 \<and>
   example_factory ''tchebi''
     = Inr (the_decomposition (example_state\<lparr>the_decomposition := example_tchebi\<rparr>)) \<and>
   MOEAD_post_initialize example_factory three_objectives example_config [10, 11, 12] example_heap
     = Inr example_state \<and>
   \<not> n_obj three_objectives \<le> 2 \<and>
   example_factory ''pbi'' = Inr (the_decomposition example_state) \<and>
   MOEAD_post_initialize example_factory three_objectives
       (example_config\<lparr>decomposition := Instance example_tchebi\<rparr>) [10, 11, 12] example_heap
     = Inr (example_state\<lparr>decomposition := Instance example_tchebi,
                            the_decomposition := example_tchebi\<rparr>)"
proof -
  have e2: "MOEAD_post_initialize example_factory two_objectives example_config [10, 11, 12]
      example_heap = Inr (example_state\<lparr>the_decomposition := example_tchebi\<rparr>)"
    by (simp add: MOEAD_post_initialize_def example_config_def example_state_def
        example_heap_def example_factory_def two_objectives_def np_vstack_def
        moead_config.truncate_def moead_config.extend_def)
  have e3: "MOEAD_post_initialize example_factory three_objectives example_config [10, 11, 12]
      example_heap = Inr example_state"
    by (simp add: MOEAD_post_initialize_def example_config_def example_state_def
        example_heap_def example_factory_def three_objectives_def np_vstack_def
        moead_config.truncate_def moead_config.extend_def)
  have ei: "MOEAD_post_initialize example_factory three_objectives
       (example_config\<lparr>decomposition := Instance example_tchebi\<rparr>) [10, 11, 12] example_heap
     = Inr (example_state\<lparr>decomposition := Instance example_tchebi,
                            the_decomposition := example_tchebi\<rparr>)"
    by (simp add: MOEAD_post_initialize_def example_config_def example_state_def
        example_heap_def np_vstack_def moead_config.truncate_def moead_config.extend_def)
  have a: "decomposition example_config = Name ''auto''"
    by (simp add: example_config_def example_state_def moead_config.truncate_def)
  have n2: "n_obj two_objectives \<le> 2"
    by (simp add: two_objectives_def)
  have n3: "\<not> n_obj three_objectives \<le> 2"
    by (simp add: three_objectives_def)
  have t: "example_factory ''tchebi''
      = Inr (the_decomposition (example_state\<lparr>the_decomposition := example_tchebi\<rparr>))"
    using post_initialize_decomposition[OF e2] a n2 by simp
  have b: "example_factory ''pbi'' = Inr (the_decomposition example_state)"
    using post_initialize_decomposition[OF e3] a n3 by simp
  show ?thesis
    by (intro conjI e2 e3 ei a n2 n3 t b)
qed

section \<open>The ideal point\<close>

lemma length_foldl_min:
  "list_all (\<lambda>x. length x = length r) rs \<Longrightarrow>
   length (foldl (\<lambda>acc row. map2 min acc row) r rs) = length r"
  by (induction rs arbitrary: r) simp_all

lemma Min_insert_min:
  "finite S \<Longrightarrow> Min (insert (min a b) S) = Min (insert a (insert b S))"
  by (cases "S = {}") (simp_all add: min.assoc)

lemma nth_foldl_min:
  "list_all (\<lambda>x. length x = length r) rs \<Longrightarrow> c < length r \<Longrightarrow>
   foldl (\<lambda>acc row. map2 min acc row) r rs ! c = Min (insert (r ! c) ((\<lambda>f. f ! c) ` set rs))"
proof (induction rs arbitrary: r)
  case Nil
  then show ?case by simp
next
  case (Cons x rs)
  have len: "length (map2 min r x) = length r"
    using Cons.prems(1) by simp
  have all: "list_all (\<lambda>y. length y = length (map2 min r x)) rs"
    using Cons.prems(1) by simp
  have "foldl (\<lambda>acc row. map2 min acc row) (map2 min r x) rs ! c
      = Min (insert (map2 min r x ! c) ((\<lambda>f. f ! c) ` set rs))"
    using Cons.IH[OF all] Cons.prems(2) len by simp
  also have "map2 min r x ! c = min (r ! c) (x ! c)"
    using Cons.prems by simp
  finally show ?case
    by (simp add: Min_insert_min)
qed

lemma update_ideal_Inr_iff:
  "update_ideal z Fs = Inr z' \<longleftrightarrow>
     list_all (\<lambda>f. length f = length z) Fs \<and> z' = foldl (\<lambda>acc row. map2 min acc row) z Fs"
  by (auto simp: update_ideal_def np_vstack_def)

lemma update_ideal_min:
  assumes "update_ideal z Fs = Inr z'"
  shows "length z' = length z"
    and "c < length z \<Longrightarrow> z' ! c = Min (insert (z ! c) ((\<lambda>f. f ! c) ` set Fs))"
  using assms by (simp_all add: update_ideal_Inr_iff length_foldl_min nth_foldl_min)

lemma update_ideal_le:
  assumes "update_ideal z Fs = Inr z'"
  shows "list_all2 (\<le>) z' z"
proof (rule list_all2_all_nthI)
  show "length z' = length z"
    using assms by (rule update_ideal_min)
next
  fix c assume "c < length z'"
  then have c: "c < length z"
    using update_ideal_min(1)[OF assms] by simp
  show "z' ! c \<le> z ! c"
    by (simp add: update_ideal_min(2)[OF assms c])
qed

lemma list_all2_le_refl: "list_all2 (\<le>) (z::real list) z"
  by (simp add: list_all2_refl)

lemma list_all2_le_trans:
  "list_all2 (\<le>) (a::real list) b \<Longrightarrow> list_all2 (\<le>) b c \<Longrightarrow> list_all2 (\<le>) a c"
  by (fastforce simp: list_all2_conv_all_nth)

section \<open>What the engines keep\<close>

lemma same_shape_refl: "same_shape s s"
  by (simp add: same_shape_def)

lemma same_shape_trans: "same_shape a b \<Longrightarrow> same_shape b c \<Longrightarrow> same_shape a c"
  by (simp add: same_shape_def)

lemma replace_Inr:
  assumes "MOEAD_replace s i off = Inr s'"
  shows "ideal s' = ideal s" and "heap s' = heap s" and "same_shape s s'"
  using assms
  by (auto simp: MOEAD_replace_def Let_def length_fold_update same_shape_def split: if_splits)

lemma replace_infills_Inr:
  "replace_infills s infills = Inr s' \<Longrightarrow> ideal s' = ideal s \<and> heap s' = heap s \<and> same_shape s s'"
proof (induction infills arbitrary: s)
  case Nil
  then show ?case by (simp add: same_shape_refl)
next
  case (Cons off rest)
  from Cons.prems obtain i s1 where
    r: "MOEAD_replace s i off = Inr s1" and rest: "replace_infills s1 rest = Inr s'"
    by (auto split: option.splits sum.splits)
  from Cons.IH[OF rest] replace_Inr[OF r] show ?case
    by (auto intro: same_shape_trans)
qed

lemma parallel_advance_Inr:
  assumes "ParallelMOEAD_advance s infills = Inr s'"
  shows "update_ideal (ideal s) (map (\<lambda>r. F (heap s r)) infills) = Inr (ideal s')"
    and "heap s' = heap s" and "same_shape s s'"
proof -
  from assms obtain z where
    z: "update_ideal (ideal s) (map (\<lambda>r. F (heap s r)) infills) = Inr z"
    and r: "replace_infills (s\<lparr>ideal := z\<rparr>) infills = Inr s'"
    by (auto simp: ParallelMOEAD_advance_def split: sum.splits)
  from replace_infills_Inr[OF r] z
  show "update_ideal (ideal s) (map (\<lambda>r. F (heap s r)) infills) = Inr (ideal s')"
    and "heap s' = heap s" and "same_shape s s'"
    by (simp_all add: same_shape_def)
qed

text \<open>One turn of the sequential loop, read off the source.\<close>

lemma advance_loop_Cons:
  assumes "advance_loop w (i # rest) s e = Inr r"
  shows "\<exists>P e1 offs h1 e2 off h2 e3 z s1.
     NeighborhoodSelection_do w (neighbors s) (prob_neighbor_mating s) (length (pop s)) 1
       (n_parents w) (Some [i]) e = Inr (P, e1) \<and>
     mating_do w (heap s) (pop s) 1 P e1 = ((off # offs, h1), e2) \<and>
     evaluator_eval w h1 [off] e2 = (h2, e3) \<and>
     update_ideal (ideal s) [F (h2 off)] = Inr z \<and>
     MOEAD_replace (s\<lparr>heap := h2, ideal := z\<rparr>) i off = Inr s1 \<and>
     advance_loop w rest s1 e3 = Inr r"
  using assms
  by (auto split: sum.splits prod.splits list.splits)

lemma advance_loop_Inr:
  "advance_loop w order s e = Inr (s', e') \<Longrightarrow>
     list_all2 (\<le>) (ideal s') (ideal s) \<and> same_shape s s'"
proof (induction order arbitrary: s e)
  case Nil
  then show ?case by (simp add: same_shape_refl list_all2_le_refl)
next
  case (Cons i rest)
  from advance_loop_Cons[OF Cons.prems] obtain off h2 e3 z s1 where
    z: "update_ideal (ideal s) [F (h2 off)] = Inr z"
    and r: "MOEAD_replace (s\<lparr>heap := h2, ideal := z\<rparr>) i off = Inr s1"
    and rest: "advance_loop w rest s1 e3 = Inr (s', e')"
    by blast
  from replace_Inr[OF r] have s1: "ideal s1 = z" "same_shape s s1"
    by (simp_all add: same_shape_def)
  from Cons.IH[OF rest] have "list_all2 (\<le>) (ideal s') z" "same_shape s1 s'"
    using s1 by simp_all
  with update_ideal_le[OF z] s1 show ?case
    by (auto intro: list_all2_le_trans same_shape_trans)
qed

lemma advance_Inr:
  "MOEAD_advance w s e = Inr (s', e') \<Longrightarrow>
     list_all2 (\<le>) (ideal s') (ideal s) \<and> same_shape s s'"
  by (auto simp: MOEAD_advance_def split: prod.splits dest: advance_loop_Inr)

lemma parallel_next_Inr:
  assumes "ParallelMOEAD_next w s e = Inr (s', e')"
  shows "list_all2 (\<le>) (ideal s') (ideal s) \<and> same_shape s s'"
proof -
  from assms obtain infills h2 where
    a: "ParallelMOEAD_advance (s\<lparr>heap := h2\<rparr>) infills = Inr s'"
    by (auto simp: ParallelMOEAD_next_def split: sum.splits prod.splits)
  from parallel_advance_Inr[OF a] show ?thesis
    by (auto simp: same_shape_def dest: update_ideal_le)
qed

lemma generations_Inr:
  assumes step: "\<And>s e s' e'. step s e = Inr (s', e') \<Longrightarrow>
       list_all2 (\<le>) (ideal s') (ideal s) \<and> same_shape s s'"
  shows "generations step n s e = Inr (s', e') \<Longrightarrow>
       list_all2 (\<le>) (ideal s') (ideal s) \<and> same_shape s s'"
proof (induction n arbitrary: s e)
  case 0
  then show ?case by (simp add: same_shape_refl list_all2_le_refl)
next
  case (Suc n)
  from Suc.prems obtain s1 e1 where
    a: "step s e = Inr (s1, e1)" and b: "generations step n s1 e1 = Inr (s', e')"
    by (auto split: sum.splits)
  from step[OF a] Suc.IH[OF b] show ?case
    by (auto intro: list_all2_le_trans same_shape_trans)
qed

section \<open>The batched engine against the specification\<close>

lemma replace_with_ideal_eq:
  "ideal s = z \<Longrightarrow> replace_with_ideal z s infills = replace_infills s infills"
proof (induction infills arbitrary: s)
  case Nil
  then show ?case by simp
next
  case (Cons off rest)
  have same: "s\<lparr>ideal := z\<rparr> = s"
    using Cons.prems by simp
  show ?case
  proof (cases "tag_i (heap s off)")
    case None
    then show ?thesis by simp
  next
    case (Some i)
    show ?thesis
    proof (cases "MOEAD_replace s i off")
      case (Inl err)
      with Some same show ?thesis by simp
    next
      case (Inr s1)
      from replace_Inr(1)[OF Inr] Cons.prems have "ideal s1 = z" by simp
      from Cons.IH[OF this] Some Inr same show ?thesis by simp
    qed
  qed
qed

text \<open>
  Claim C4. The advance of the batched engine is the specification's: the ideal point is
  updated once, from the objective vectors of the whole batch, and then the replacement
  step runs for each tagged offspring in the batch's order, each time with that one
  batch-updated ideal point. The ideal point it leaves is the batch-updated one.
\<close>

theorem batched_advance_uses_batch_ideal:
  "ParallelMOEAD_advance s infills = batched_advance_spec s infills \<and>
   (\<forall>s'. ParallelMOEAD_advance s infills = Inr s' \<longrightarrow>
      update_ideal (ideal s) (map (\<lambda>r. F (heap s r)) infills) = Inr (ideal s') \<and>
      heap s' = heap s)"
proof -
  have "ParallelMOEAD_advance s infills = batched_advance_spec s infills"
    by (simp add: ParallelMOEAD_advance_def batched_advance_spec_def replace_with_ideal_eq
        split: sum.splits)
  moreover have "update_ideal (ideal s) (map (\<lambda>r. F (heap s r)) infills) = Inr (ideal s') \<and>
      heap s' = heap s" if "ParallelMOEAD_advance s infills = Inr s'" for s'
    using parallel_advance_Inr[OF that] by simp
  ultimately show ?thesis by blast
qed

lemma example_batch:
  "ParallelMOEAD_advance example_state [20, 21, 22]
     = Inr (example_state\<lparr>pop := [22, 20, 20], ideal := [0, 2]\<rparr>)"
  by (simp add: ParallelMOEAD_advance_def update_ideal_def np_vstack_def MOEAD_replace_def
      decomposition_do_def np_where_less_def Let_def upt_conv_Cons example_defs)

theorem batched_advance_uses_batch_ideal_witness:
  "ParallelMOEAD_advance example_state [20, 21, 22]
     = Inr (example_state\<lparr>pop := [22, 20, 20], ideal := [0, 2]\<rparr>) \<and>
   batched_advance_spec example_state [20, 21, 22]
     = Inr (example_state\<lparr>pop := [22, 20, 20], ideal := [0, 2]\<rparr>) \<and>
   update_ideal (ideal example_state) (map (\<lambda>r. F (heap example_state r)) [20, 21, 22])
     = Inr [0, 2]"
  using batched_advance_uses_batch_ideal[of example_state "[20, 21, 22]"] example_batch
  by simp

section \<open>The population's size\<close>

lemma init_Inr:
  assumes "MOEAD_init argsort rd n_nb dec prob = Inr c"
  shows "ref_dirs c = rd" and "pop_size c = length rd" and "length (neighbors c) = length rd"
    and "n_neighbors c = min (int (length rd)) n_nb"
    and "decomposition c = dec" and "prob_neighbor_mating c = prob"
  using assms
  by (auto simp: MOEAD_init_def Let_def cdist_def split: sum.splits if_splits)

lemma post_initialize_Inr:
  assumes "MOEAD_post_initialize gd p c pop0 h = Inr s"
  shows "pop s = pop0" and "heap s = h" and "ref_dirs s = ref_dirs c"
    and "neighbors s = neighbors c" and "pop_size s = pop_size c"
    and "n_neighbors s = n_neighbors c"
  using assms
  by (auto simp: MOEAD_post_initialize_def moead_config.extend_def split: sum.splits)

lemma same_shape_invariant:
  "same_shape s s' \<Longrightarrow> size_invariant s \<Longrightarrow> size_invariant s' \<and> length (pop s') = length (pop s)"
  by (simp add: same_shape_def size_invariant_def)

lemma example_init:
  "MOEAD_init argsort_stable [[1, 0], [1/2, 1/2], [0, 1]] 3 (Name ''auto'') (9/10)
     = Inr example_config"
  by (simp add: MOEAD_init_def cdist_def argsort_stable_def py_slice_to_def
      upt_conv_Cons example_config_def example_state_def moead_config.truncate_def Let_def
      euclidean_self example_distances example_order)

text \<open>
  Claim C9. The constructor sets the population size to the number of reference
  directions and builds one neighbor row per direction, so an initial population of
  \<open>pop_size\<close> individuals has the length of the direction set and of the neighbor table.
  The replacement step writes into existing slots, and any number of generations of
  either engine leaves these three sizes equal and the population's length unchanged.
\<close>

theorem population_size_invariant:
  "(MOEAD_init argsort rd n_nb dec prob = Inr c \<longrightarrow>
      MOEAD_post_initialize gd p c pop0 h = Inr s0 \<longrightarrow> length pop0 = pop_size c \<longrightarrow>
      size_invariant s0 \<and> length (pop s0) = length rd) \<and>
   (size_invariant s \<longrightarrow> MOEAD_replace s i off = Inr s1 \<longrightarrow>
      size_invariant s1 \<and> length (pop s1) = length (pop s)) \<and>
   (size_invariant s \<longrightarrow> generations (MOEAD_advance w) n s e = Inr (s2, e2) \<longrightarrow>
      size_invariant s2 \<and> length (pop s2) = length (pop s)) \<and>
   (size_invariant s \<longrightarrow> generations (ParallelMOEAD_next w) n s e = Inr (s3, e3) \<longrightarrow>
      size_invariant s3 \<and> length (pop s3) = length (pop s))"
proof (intro conjI impI)
  assume a: "MOEAD_init argsort rd n_nb dec prob = Inr c"
    and b: "MOEAD_post_initialize gd p c pop0 h = Inr s0"
    and l: "length pop0 = pop_size c"
  show "size_invariant s0"
    using init_Inr(1-3)[OF a] post_initialize_Inr(1,3,4,5)[OF b] l
    by (simp add: size_invariant_def)
  show "length (pop s0) = length rd"
    using init_Inr(2)[OF a] post_initialize_Inr(1)[OF b] l by simp
next
  assume i: "size_invariant s" and r: "MOEAD_replace s i off = Inr s1"
  from same_shape_invariant[OF replace_Inr(3)[OF r] i]
  show "size_invariant s1" and "length (pop s1) = length (pop s)" by simp_all
next
  assume i: "size_invariant s" and g: "generations (MOEAD_advance w) n s e = Inr (s2, e2)"
  have "list_all2 (\<le>) (ideal s2) (ideal s) \<and> same_shape s s2"
    by (rule generations_Inr[OF _ g]) (rule advance_Inr)
  then have "same_shape s s2" by simp
  from same_shape_invariant[OF this i]
  show "size_invariant s2" and "length (pop s2) = length (pop s)" by simp_all
next
  assume i: "size_invariant s" and g: "generations (ParallelMOEAD_next w) n s e = Inr (s3, e3)"
  have "list_all2 (\<le>) (ideal s3) (ideal s) \<and> same_shape s s3"
    by (rule generations_Inr[OF _ g]) (rule parallel_next_Inr)
  then have "same_shape s s3" by simp
  from same_shape_invariant[OF this i]
  show "size_invariant s3" and "length (pop s3) = length (pop s)" by simp_all
qed

section \<open>The example, run\<close>

lemmas example_eval = MOEAD_advance_def ParallelMOEAD_next_def ParallelMOEAD_infill_def
  ParallelMOEAD_advance_def set_tags_def
  NeighborhoodSelection_do_def np_random_choice_def assign_row_def update_ideal_def
  np_vstack_def MOEAD_replace_def decomposition_do_def np_where_less_def Let_def upt_conv_Cons
  example_defs example_world_defs

lemma map_sum_InrE: "map_sum id f x = Inr y \<Longrightarrow> \<exists>a. x = Inr a \<and> f a = y"
  by (cases x) auto

lemma example_post_initialize:
  "MOEAD_post_initialize example_factory three_objectives example_config [10, 11, 12] example_heap
     = Inr example_state"
  by (simp add: MOEAD_post_initialize_def example_config_def example_state_def
      example_heap_def example_factory_def three_objectives_def np_vstack_def
      moead_config.truncate_def moead_config.extend_def)

lemma example_replace:
  "MOEAD_replace example_state 1 20 = Inr (example_state\<lparr>pop := [10, 20, 20]\<rparr>)"
  by (simp add: example_eval)

text \<open>Two generations of the sequential engine: population, ideal point, environment.\<close>

lemma example_sequential:
  "map_sum id (\<lambda>(s, e). (pop s, ideal s, e))
     (generations (MOEAD_advance example_world) (Suc (Suc 0)) example_state 0)
   = Inr ([130, 130, 130], [0, 2], 20)"
  by (simp add: example_eval)

text \<open>Two generations of the batched engine.\<close>

lemma example_batched:
  "map_sum id (\<lambda>(s, e). (pop s, ideal s, e))
     (generations (ParallelMOEAD_next example_world) (Suc (Suc 0)) example_state 0)
   = Inr ([170, 170, 170], [0, 2], 16)"
  apply (simp add: example_eval)
  apply (rule exI[of _ 0])
  apply simp
  done

section \<open>The ideal point over generations\<close>

lemma update_ideal_total:
  "list_all (\<lambda>f. length f = length z) Fs \<Longrightarrow> \<exists>z'. update_ideal z Fs = Inr z'"
  by (simp add: update_ideal_Inr_iff)

text \<open>
  Claim C2. The update of the ideal point returns, whenever the new objective vectors have
  the ideal point's dimension, the coordinate-wise minimum of the current ideal point and
  all the new vectors, which is coordinate-wise at most the current ideal point. Every turn
  of the sequential engine's loop updates with the one offspring's vector before it
  replaces, the batched engine's advance updates with the whole batch, and over any number
  of generations of either engine the ideal point is coordinate-wise non-increasing.
\<close>

theorem ideal_point_non_increasing:
  "(list_all (\<lambda>f. length f = length z) Fs \<longrightarrow> (\<exists>z'. update_ideal z Fs = Inr z')) \<and>
   (update_ideal z Fs = Inr z' \<longrightarrow>
      length z' = length z \<and>
      (\<forall>c<length z. z' ! c = Min (insert (z ! c) ((\<lambda>f. f ! c) ` set Fs))) \<and>
      list_all2 (\<le>) z' z) \<and>
   (advance_loop w (i # rest) s e = Inr r \<longrightarrow>
      (\<exists>off h2 z1 s1 e3.
         update_ideal (ideal s) [F (h2 off)] = Inr z1 \<and>
         MOEAD_replace (s\<lparr>heap := h2, ideal := z1\<rparr>) i off = Inr s1 \<and>
         advance_loop w rest s1 e3 = Inr r)) \<and>
   (ParallelMOEAD_advance s infills = Inr s' \<longrightarrow>
      update_ideal (ideal s) (map (\<lambda>r. F (heap s r)) infills) = Inr (ideal s')) \<and>
   (generations (MOEAD_advance w) n s e = Inr (t, e') \<longrightarrow>
      list_all2 (\<le>) (ideal t) (ideal s)) \<and>
   (generations (ParallelMOEAD_next w) n s e = Inr (t', e'') \<longrightarrow>
      list_all2 (\<le>) (ideal t') (ideal s))"
proof (intro conjI impI)
  assume "list_all (\<lambda>f. length f = length z) Fs"
  then show "\<exists>z'. update_ideal z Fs = Inr z'" by (rule update_ideal_total)
next
  assume u: "update_ideal z Fs = Inr z'"
  show "length z' = length z" by (rule update_ideal_min(1)[OF u])
  show "\<forall>c<length z. z' ! c = Min (insert (z ! c) ((\<lambda>f. f ! c) ` set Fs))"
    using update_ideal_min(2)[OF u] by blast
  show "list_all2 (\<le>) z' z" by (rule update_ideal_le[OF u])
next
  assume "advance_loop w (i # rest) s e = Inr r"
  from advance_loop_Cons[OF this]
  show "\<exists>off h2 z1 s1 e3.
         update_ideal (ideal s) [F (h2 off)] = Inr z1 \<and>
         MOEAD_replace (s\<lparr>heap := h2, ideal := z1\<rparr>) i off = Inr s1 \<and>
         advance_loop w rest s1 e3 = Inr r"
    by blast
next
  assume "ParallelMOEAD_advance s infills = Inr s'"
  then show "update_ideal (ideal s) (map (\<lambda>r. F (heap s r)) infills) = Inr (ideal s')"
    by (rule parallel_advance_Inr(1))
next
  assume g: "generations (MOEAD_advance w) n s e = Inr (t, e')"
  have "list_all2 (\<le>) (ideal t) (ideal s) \<and> same_shape s t"
    by (rule generations_Inr[OF _ g]) (rule advance_Inr)
  then show "list_all2 (\<le>) (ideal t) (ideal s)" by simp
next
  assume g: "generations (ParallelMOEAD_next w) n s e = Inr (t', e'')"
  have "list_all2 (\<le>) (ideal t') (ideal s) \<and> same_shape s t'"
    by (rule generations_Inr[OF _ g]) (rule parallel_next_Inr)
  then show "list_all2 (\<le>) (ideal t') (ideal s)" by simp
qed

theorem ideal_point_non_increasing_witness:
  "list_all (\<lambda>f. length f = length [1, 2 :: real]) [[2, 2], [4, 4], [0, 6]] \<and>
   update_ideal [1, 2] [[2, 2], [4, 4], [0, 6]] = Inr [0, 2] \<and>
   list_all2 (\<le>) [0, 2] [1, 2 :: real] \<and>
   ParallelMOEAD_advance example_state [20, 21, 22]
     = Inr (example_state\<lparr>pop := [22, 20, 20], ideal := [0, 2]\<rparr>) \<and>
   update_ideal (ideal example_state) (map (\<lambda>r. F (heap example_state r)) [20, 21, 22])
     = Inr (ideal (example_state\<lparr>pop := [22, 20, 20], ideal := [0, 2]\<rparr>)) \<and>
   (\<exists>t e'. generations (MOEAD_advance example_world) (Suc (Suc 0)) example_state 0 = Inr (t, e') \<and>
      ideal t = [0, 2] \<and> ideal example_state = [1, 2] \<and>
      list_all2 (\<le>) (ideal t) (ideal example_state)) \<and>
   (\<exists>t e'. generations (ParallelMOEAD_next example_world) (Suc (Suc 0)) example_state 0
        = Inr (t, e') \<and>
      ideal t = [0, 2] \<and> list_all2 (\<le>) (ideal t) (ideal example_state))"
proof -
  have a: "list_all (\<lambda>f. length f = length [1, 2 :: real]) [[2, 2], [4, 4], [0, 6]]"
    by simp
  have u: "update_ideal [1, 2] [[2, 2], [4, 4], [0, 6]] = Inr [0, 2]"
    by (simp add: update_ideal_def np_vstack_def)
  have le: "list_all2 (\<le>) [0, 2] [1, 2 :: real]"
    using ideal_point_non_increasing[THEN conjunct2, THEN conjunct1, THEN mp, OF u]
    by simp
  note b = example_batch
  have bu: "update_ideal (ideal example_state) (map (\<lambda>r. F (heap example_state r)) [20, 21, 22])
     = Inr (ideal (example_state\<lparr>pop := [22, 20, 20], ideal := [0, 2]\<rparr>))"
    by (rule ideal_point_non_increasing[THEN conjunct2, THEN conjunct2, THEN conjunct2,
          THEN conjunct1, THEN mp, OF b])
  have i0: "ideal example_state = [1, 2]"
    by (simp add: example_state_def)
  from map_sum_InrE[OF example_sequential] obtain t e' where
    g: "generations (MOEAD_advance example_world) (Suc (Suc 0)) example_state 0 = Inr (t, e')"
    and it: "ideal t = [0, 2]"
    by auto
  have gl: "list_all2 (\<le>) (ideal t) (ideal example_state)"
    by (rule ideal_point_non_increasing[THEN conjunct2, THEN conjunct2, THEN conjunct2,
          THEN conjunct2, THEN conjunct1, THEN mp, OF g])
  from map_sum_InrE[OF example_batched] obtain t' e'' where
    g': "generations (ParallelMOEAD_next example_world) (Suc (Suc 0)) example_state 0
           = Inr (t', e'')"
    and it': "ideal t' = [0, 2]"
    by auto
  have gl': "list_all2 (\<le>) (ideal t') (ideal example_state)"
    by (rule ideal_point_non_increasing[THEN conjunct2, THEN conjunct2, THEN conjunct2,
          THEN conjunct2, THEN conjunct2, THEN mp, OF g'])
  have s1: "\<exists>t e'. generations (MOEAD_advance example_world) (Suc (Suc 0)) example_state 0
        = Inr (t, e') \<and>
      ideal t = [0, 2] \<and> ideal example_state = [1, 2] \<and>
      list_all2 (\<le>) (ideal t) (ideal example_state)"
    using g it i0 gl by blast
  have s2: "\<exists>t e'. generations (ParallelMOEAD_next example_world) (Suc (Suc 0)) example_state 0
        = Inr (t, e') \<and>
      ideal t = [0, 2] \<and> list_all2 (\<le>) (ideal t) (ideal example_state)"
    using g' it' gl' by blast
  show ?thesis
    by (intro conjI a u le b bu s1 s2)
qed

theorem population_size_invariant_witness:
  "MOEAD_init argsort_stable [[1, 0], [1/2, 1/2], [0, 1]] 3 (Name ''auto'') (9/10)
     = Inr example_config \<and>
   MOEAD_post_initialize example_factory three_objectives example_config [10, 11, 12] example_heap
     = Inr example_state \<and>
   length [10, 11, 12 :: nat] = pop_size example_config \<and>
   size_invariant example_state \<and> length (pop example_state) = 3 \<and>
   MOEAD_replace example_state 1 20 = Inr (example_state\<lparr>pop := [10, 20, 20]\<rparr>) \<and>
   size_invariant (example_state\<lparr>pop := [10, 20, 20]\<rparr>) \<and>
   (\<exists>t e'. generations (MOEAD_advance example_world) (Suc (Suc 0)) example_state 0 = Inr (t, e') \<and>
      size_invariant t \<and> length (pop t) = length (pop example_state)) \<and>
   (\<exists>t e'. generations (ParallelMOEAD_next example_world) (Suc (Suc 0)) example_state 0
        = Inr (t, e') \<and>
      size_invariant t \<and> length (pop t) = length (pop example_state))"
proof -
  note a = example_init
  note b = example_post_initialize
  have l: "length [10, 11, 12 :: nat] = pop_size example_config"
    by (simp add: example_config_def example_state_def moead_config.truncate_def)
  note i0 = population_size_invariant[THEN conjunct1, THEN mp, THEN mp, THEN mp, OF a b l]
  have inv: "size_invariant example_state"
    by (rule i0[THEN conjunct1])
  have len: "length (pop example_state) = 3"
    using i0[THEN conjunct2] by simp
  note r = example_replace
  have inv1: "size_invariant (example_state\<lparr>pop := [10, 20, 20]\<rparr>)"
    by (rule population_size_invariant[THEN conjunct2, THEN conjunct1, THEN mp, THEN mp,
          OF inv r, THEN conjunct1])
  from map_sum_InrE[OF example_sequential] obtain t e' where
    g: "generations (MOEAD_advance example_world) (Suc (Suc 0)) example_state 0 = Inr (t, e')"
    by auto
  have gi: "size_invariant t \<and> length (pop t) = length (pop example_state)"
    by (rule population_size_invariant[THEN conjunct2, THEN conjunct2, THEN conjunct1,
          THEN mp, THEN mp, OF inv g])
  from map_sum_InrE[OF example_batched] obtain t' e'' where
    g': "generations (ParallelMOEAD_next example_world) (Suc (Suc 0)) example_state 0
           = Inr (t', e'')"
    by auto
  have gi': "size_invariant t' \<and> length (pop t') = length (pop example_state)"
    by (rule population_size_invariant[THEN conjunct2, THEN conjunct2, THEN conjunct2,
          THEN mp, THEN mp, OF inv g'])
  have s1: "\<exists>t e'. generations (MOEAD_advance example_world) (Suc (Suc 0)) example_state 0
        = Inr (t, e') \<and> size_invariant t \<and> length (pop t) = length (pop example_state)"
    using g gi by blast
  have s2: "\<exists>t e'. generations (ParallelMOEAD_next example_world) (Suc (Suc 0)) example_state 0
        = Inr (t, e') \<and> size_invariant t \<and> length (pop t) = length (pop example_state)"
    using g' gi' by blast
  show ?thesis
    by (intro conjI a b l inv len r inv1 s1 s2)
qed

section \<open>The neighbor table\<close>

lemma argsort_spec_perm:
  assumes "argsort_spec argsort"
  shows "set (argsort xs) = {0..<length xs}" and "distinct (argsort xs)"
    and "length (argsort xs) = length xs" and "sorted (map (\<lambda>j. xs ! j) (argsort xs))"
proof -
  have m: "mset (argsort xs) = mset [0..<length xs]"
    and s: "sorted (map (\<lambda>j. xs ! j) (argsort xs))"
    using assms by (simp_all add: argsort_spec_def)
  show "set (argsort xs) = {0..<length xs}"
    using mset_eq_setD[OF m] by simp
  show "distinct (argsort xs)"
    using mset_eq_imp_distinct_iff[OF m] by simp
  show "length (argsort xs) = length xs"
    using mset_eq_length[OF m] by simp
  show "sorted (map (\<lambda>j. xs ! j) (argsort xs))" by (rule s)
qed

lemma argsort_stable_spec: "argsort_spec argsort_stable"
  by (simp add: argsort_spec_def argsort_stable_def)







section \<open>Degenerate configurations\<close>

lemma post_initialize_total:
  assumes ne: "pop0 \<noteq> []"
    and dims: "list_all (\<lambda>r. length (F (h r)) = length (F (h (hd pop0)))) pop0"
    and res: "(case decomposition c of
                Name name \<Rightarrow>
                  gd (if name = ''auto'' then (if n_obj p \<le> 2 then ''tchebi'' else ''pbi'')
                      else name)
              | Instance g' \<Rightarrow> Inr g') = Inr g"
  shows "\<exists>s. MOEAD_post_initialize gd p c pop0 h = Inr s \<and>
     n_neighbors s = n_neighbors c \<and> neighbors s = neighbors c \<and> the_decomposition s = g \<and>
     pop s = pop0"
proof -
  obtain r rs where pop0: "pop0 = r # rs"
    using ne by (cases pop0) auto
  have "list_all (\<lambda>x. length x = length (F (h r))) (map (\<lambda>r. F (h r)) rs)"
    using dims by (simp add: pop0 list_all_iff)
  then have "\<exists>z. (case np_vstack (map (\<lambda>r. F (h r)) pop0) of
              Inl err \<Rightarrow> Inl err | Inr rows \<Rightarrow> np_min_axis0 rows) = Inr z"
    by (simp add: pop0 np_vstack_def)
  then obtain z where z: "(case np_vstack (map (\<lambda>r. F (h r)) pop0) of
              Inl err \<Rightarrow> Inl err | Inr rows \<Rightarrow> np_min_axis0 rows) = Inr z"
    by blast
  show ?thesis
    unfolding MOEAD_post_initialize_def z res
    by (simp add: moead_config.extend_def)
qed

lemma post_initialize_empty:
  "MOEAD_post_initialize gd p c [] h = Inl ValueError"
  by (simp add: MOEAD_post_initialize_def np_vstack_def)

text \<open>
  Claim C6 as stated fails for the neighborhood size. The constructor does not check it:
  with three directions, a size of \<open>0\<close> gives a table of empty rows and a size of \<open>-1\<close> gives
  rows of two entries (the slice \<^verbatim>\<open>[:, :-1]\<close>); the setup assertion of an unconstrained
  problem passes, and so does \<^verbatim>\<open>_post_initialize\<close> on either configuration.
\<close>

theorem init_nonpositive_neighbors_counterexample:
  "MOEAD_init argsort_stable [[1, 0], [1/2, 1/2], [0, 1]] 0 (Name ''auto'') (9/10)
     = Inr (example_config\<lparr>n_neighbors := 0, neighbors := [[], [], []]\<rparr>) \<and>
   MOEAD_init argsort_stable [[1, 0], [1/2, 1/2], [0, 1]] (- 1) (Name ''auto'') (9/10)
     = Inr (example_config\<lparr>n_neighbors := - 1, neighbors := [[0, 1], [1, 0], [2, 1]]\<rparr>) \<and>
   MOEAD_setup two_objectives = Inr () \<and>
   MOEAD_post_initialize example_factory two_objectives
       (example_config\<lparr>n_neighbors := 0, neighbors := [[], [], []]\<rparr>) [10, 11, 12] example_heap
     = Inr (example_state\<lparr>n_neighbors := 0, neighbors := [[], [], []],
                            the_decomposition := example_tchebi\<rparr>) \<and>
   MOEAD_post_initialize example_factory two_objectives
       (example_config\<lparr>n_neighbors := - 1, neighbors := [[0, 1], [1, 0], [2, 1]]\<rparr>)
       [10, 11, 12] example_heap
     = Inr (example_state\<lparr>n_neighbors := - 1, neighbors := [[0, 1], [1, 0], [2, 1]],
                            the_decomposition := example_tchebi\<rparr>)"
  by (simp add: MOEAD_init_def cdist_def argsort_stable_def py_slice_to_def
      upt_conv_Cons example_config_def example_state_def moead_config.truncate_def Let_def
      euclidean_self example_distances example_order MOEAD_setup_def two_objectives_def
      MOEAD_post_initialize_def example_heap_def example_factory_def np_vstack_def
      moead_config.extend_def)

text \<open>
  Claim C6, amended. An empty reference direction set fails at setup, before any
  generation: the constructor sets the population size to \<open>0\<close>, and for the empty initial
  population the minimum that initializes the ideal point raises in
  \<^verbatim>\<open>_post_initialize\<close>. A neighborhood size \<open>K \<le> 0\<close> does not fail at setup. With a non-empty
  direction set the constructor keeps \<open>n_neighbors = K\<close>, sets the population size to the
  number \<open>M\<close> of directions, and cuts each of the \<open>M\<close> sorted rows with the slice \<^verbatim>\<open>[:K]\<close>, which
  leaves no entry for \<open>K = 0\<close> and \<open>M + K\<close> entries (none if that is negative) for \<open>K < 0\<close>; for
  a problem without constraints the setup assertion passes, and \<^verbatim>\<open>_post_initialize\<close>
  returns for every non-empty initial population whose objective vectors have one
  dimension and every decomposition the factory resolves, with the table unchanged.
\<close>

theorem setup_on_degenerate_configuration:
  assumes spec: "argsort_spec argsort"
  shows "(\<exists>c. MOEAD_init argsort [] n_nb dec prob = Inr c \<and> pop_size c = 0 \<and>
            (\<forall>gd p pop0 h. length pop0 = pop_size c \<longrightarrow>
               MOEAD_post_initialize gd p c pop0 h = Inl ValueError)) \<and>
     (rd \<noteq> [] \<longrightarrow> list_all (\<lambda>r. length r = length (hd rd)) rd \<longrightarrow> n_nb \<le> 0 \<longrightarrow>
        (\<exists>c. MOEAD_init argsort rd n_nb dec prob = Inr c \<and>
           n_neighbors c = n_nb \<and> pop_size c = length rd \<and>
           length (neighbors c) = length rd \<and>
           list_all (\<lambda>row. length row = (if n_nb = 0 then 0 else length rd - nat (- n_nb)))
             (neighbors c) \<and>
           (\<forall>gd p pop0 h g.
              \<not> has_constraints p \<longrightarrow> pop0 \<noteq> [] \<longrightarrow>
              list_all (\<lambda>r. length (F (h r)) = length (F (h (hd pop0)))) pop0 \<longrightarrow>
              (case dec of
                 Name name \<Rightarrow>
                   gd (if name = ''auto'' then (if n_obj p \<le> 2 then ''tchebi'' else ''pbi'')
                       else name)
               | Instance g' \<Rightarrow> Inr g') = Inr g \<longrightarrow>
              MOEAD_setup p = Inr () \<and>
              (\<exists>s. MOEAD_post_initialize gd p c pop0 h = Inr s \<and>
                 n_neighbors s = n_nb \<and> neighbors s = neighbors c \<and>
                 the_decomposition s = g))))"
proof (intro conjI impI)
  let ?c = "\<lparr>ref_dirs = [], n_neighbors = min 0 n_nb, prob_neighbor_mating = prob,
             decomposition = dec, neighbors = [], pop_size = 0\<rparr>"
  have "MOEAD_init argsort [] n_nb dec prob = Inr ?c"
    by (simp add: MOEAD_init_def cdist_def Let_def)
  moreover have "MOEAD_post_initialize gd p ?c pop0 h = Inl ValueError"
    if "length pop0 = pop_size ?c" for gd p pop0 h
    using that by (simp add: post_initialize_empty)
  ultimately show "\<exists>c. MOEAD_init argsort [] n_nb dec prob = Inr c \<and> pop_size c = 0 \<and>
            (\<forall>gd p pop0 h. length pop0 = pop_size c \<longrightarrow>
               MOEAD_post_initialize gd p c pop0 h = Inl ValueError)"
    by (intro exI[of _ ?c]) simp
next
  assume ne: "rd \<noteq> []" and mat: "list_all (\<lambda>r. length r = length (hd rd)) rd"
    and K: "n_nb \<le> 0"
  have chk: "list_all (\<lambda>a. list_all (\<lambda>r. length r = length a) (rd @ rd)) (rd @ rd)"
    using mat by (auto simp: list_all_iff)
  let ?K = "min (int (length rd)) n_nb"
  let ?c = "\<lparr>ref_dirs = rd, n_neighbors = ?K, prob_neighbor_mating = prob,
             decomposition = dec,
             neighbors = map (\<lambda>row. py_slice_to (argsort row) ?K)
                           (map (\<lambda>a. map (\<lambda>b. euclidean a b) rd) rd),
             pop_size = length rd\<rparr>"
  have eq: "MOEAD_init argsort rd n_nb dec prob = Inr ?c"
    using chk by (simp add: MOEAD_init_def cdist_def Let_def)
  have Kn: "?K = n_nb"
    using K by simp
  have rows: "length (py_slice_to (argsort (map (\<lambda>b. euclidean a b) rd)) ?K)
      = (if n_nb = 0 then 0 else length rd - nat (- n_nb))" for a
    using K by (simp add: Kn py_slice_to_def argsort_spec_perm(3)[OF spec])
  have shape: "n_neighbors ?c = n_nb \<and> pop_size ?c = length rd \<and>
      length (neighbors ?c) = length rd \<and>
      list_all (\<lambda>row. length row = (if n_nb = 0 then 0 else length rd - nat (- n_nb)))
        (neighbors ?c)"
    using Kn rows by (simp add: list_all_iff)
  have rest: "MOEAD_setup p = Inr () \<and>
      (\<exists>s. MOEAD_post_initialize gd p ?c pop0 h = Inr s \<and>
         n_neighbors s = n_nb \<and> neighbors s = neighbors ?c \<and> the_decomposition s = g)"
    if nc: "\<not> has_constraints p" and p0: "pop0 \<noteq> []"
      and dims: "list_all (\<lambda>r. length (F (h r)) = length (F (h (hd pop0)))) pop0"
      and res: "(case dec of
                 Name name \<Rightarrow>
                   gd (if name = ''auto'' then (if n_obj p \<le> 2 then ''tchebi'' else ''pbi'')
                       else name)
               | Instance g' \<Rightarrow> Inr g') = Inr g"
    for gd p pop0 h g
  proof -
    have res': "(case decomposition ?c of
                Name name \<Rightarrow>
                  gd (if name = ''auto'' then (if n_obj p \<le> 2 then ''tchebi'' else ''pbi'')
                      else name)
              | Instance g' \<Rightarrow> Inr g') = Inr g"
      using res by simp
    from post_initialize_total[OF p0 dims res'] Kn nc show ?thesis
      by (auto simp: MOEAD_setup_def)
  qed
  show "\<exists>c. MOEAD_init argsort rd n_nb dec prob = Inr c \<and>
           n_neighbors c = n_nb \<and> pop_size c = length rd \<and>
           length (neighbors c) = length rd \<and>
           list_all (\<lambda>row. length row = (if n_nb = 0 then 0 else length rd - nat (- n_nb)))
             (neighbors c) \<and>
           (\<forall>gd p pop0 h g.
              \<not> has_constraints p \<longrightarrow> pop0 \<noteq> [] \<longrightarrow>
              list_all (\<lambda>r. length (F (h r)) = length (F (h (hd pop0)))) pop0 \<longrightarrow>
              (case dec of
                 Name name \<Rightarrow>
                   gd (if name = ''auto'' then (if n_obj p \<le> 2 then ''tchebi'' else ''pbi'')
                       else name)
               | Instance g' \<Rightarrow> Inr g') = Inr g \<longrightarrow>
              MOEAD_setup p = Inr () \<and>
              (\<exists>s. MOEAD_post_initialize gd p c pop0 h = Inr s \<and>
                 n_neighbors s = n_nb \<and> neighbors s = neighbors c \<and>
                 the_decomposition s = g))"
    apply (rule exI[of _ ?c])
    apply (intro conjI eq shape[THEN conjunct1] shape[THEN conjunct2, THEN conjunct1]
        shape[THEN conjunct2, THEN conjunct2, THEN conjunct1]
        shape[THEN conjunct2, THEN conjunct2, THEN conjunct2] allI impI)
    apply (rule rest[THEN conjunct1], assumption+)
    apply (rule rest[THEN conjunct2], assumption+)
    done
qed

theorem setup_on_degenerate_configuration_witness:
  "argsort_spec argsort_stable \<and>
   (\<exists>c. MOEAD_init argsort_stable [] 20 (Name ''auto'') (9/10) = Inr c \<and> pop_size c = 0 \<and>
      (\<forall>gd p pop0 h. length pop0 = pop_size c \<longrightarrow>
         MOEAD_post_initialize gd p c pop0 h = Inl ValueError)) \<and>
   [[1, 0], [1/2, 1/2], [0, 1 :: real]] \<noteq> [] \<and>
   list_all (\<lambda>r. length r = length (hd [[1, 0], [1/2, 1/2], [0, 1 :: real]]))
     [[1, 0], [1/2, 1/2], [0, 1]] \<and>
   (- 1 :: int) \<le> 0 \<and>
   (\<exists>c. MOEAD_init argsort_stable [[1, 0], [1/2, 1/2], [0, 1]] (- 1) (Name ''auto'') (9/10)
          = Inr c \<and>
      n_neighbors c = - 1 \<and> pop_size c = length [[1, 0], [1/2, 1/2], [0, 1 :: real]] \<and>
      length (neighbors c) = length [[1, 0], [1/2, 1/2], [0, 1 :: real]] \<and>
      list_all (\<lambda>row. length row =
          (if (- 1 :: int) = 0 then 0
           else length [[1, 0], [1/2, 1/2], [0, 1 :: real]] - nat (- (- 1))))
        (neighbors c) \<and>
      (\<forall>gd p pop0 h g.
         \<not> has_constraints p \<longrightarrow> pop0 \<noteq> [] \<longrightarrow>
         list_all (\<lambda>r. length (F (h r)) = length (F (h (hd pop0)))) pop0 \<longrightarrow>
         (case Name ''auto'' of
            Name name \<Rightarrow>
              gd (if name = ''auto'' then (if n_obj p \<le> 2 then ''tchebi'' else ''pbi'')
                  else name)
          | Instance g' \<Rightarrow> Inr g') = Inr g \<longrightarrow>
         MOEAD_setup p = Inr () \<and>
         (\<exists>s. MOEAD_post_initialize gd p c pop0 h = Inr s \<and>
            n_neighbors s = - 1 \<and> neighbors s = neighbors c \<and>
            the_decomposition s = g)))"
proof -
  note a = argsort_stable_spec
  note t = setup_on_degenerate_configuration[OF a]
  note t1 = t[THEN conjunct1, of 20 "Name ''auto''" "9/10"]
  have b: "[[1, 0], [1/2, 1/2], [0, 1 :: real]] \<noteq> []" by simp
  have c: "list_all (\<lambda>r. length r = length (hd [[1, 0], [1/2, 1/2], [0, 1 :: real]]))
     [[1, 0], [1/2, 1/2], [0, 1]]" by simp
  have d: "(- 1 :: int) \<le> 0" by simp
  note t2 = t[THEN conjunct2, THEN mp, THEN mp, THEN mp, OF b c d, of "Name ''auto''" "9/10"]
  show ?thesis
    by (intro conjI a t1 b c d t2)
qed

section \<open>Properties of the neighborhood selection\<close>

lemma permutation_spec_perm:
  assumes "permutation_spec w"
  shows "set (fst (np_permutation w n e)) = {0..<n}"
    and "distinct (fst (np_permutation w n e))"
    and "length (fst (np_permutation w n e)) = n"
proof -
  have m: "mset (fst (np_permutation w n e)) = mset [0..<n]"
    using assms by (simp add: permutation_spec_def)
  show "set (fst (np_permutation w n e)) = {0..<n}"
    using mset_eq_setD[OF m] by simp
  show "distinct (fst (np_permutation w n e))"
    using mset_eq_imp_distinct_iff[OF m] by simp
  show "length (fst (np_permutation w n e)) = n"
    using mset_eq_length[OF m] by simp
qed

lemma example_world_permutation: "permutation_spec example_world"
  by (simp add: permutation_spec_def example_world_def)

text \<open>One request, read off the loop's body.\<close>

lemma selection_rows_single:
  "selection_rows w N prob len_pop n_par [j] e =
     (case (if fst (np_random w e) < prob
            then (if length N \<le> j then Inl IndexError
                  else np_random_choice w (N ! j) n_par (snd (np_random w e)))
            else Inr (take n_par (fst (np_permutation w len_pop (snd (np_random w e)))),
                      snd (np_permutation w len_pop (snd (np_random w e))))) of
        Inl err \<Rightarrow> Inl err
      | Inr (row, e2) \<Rightarrow>
          (case assign_row n_par row of Inl err \<Rightarrow> Inl err | Inr r \<Rightarrow> Inr ([r], e2)))"
  by (simp add: Let_def case_prod_beta split: sum.splits)

lemma selection_rows_Cons:
  "selection_rows w N prob len_pop n_par (j # k) e =
     (case selection_rows w N prob len_pop n_par [j] e of
        Inl err \<Rightarrow> Inl err
      | Inr (P1, e1) \<Rightarrow>
          (case selection_rows w N prob len_pop n_par k e1 of
             Inl err \<Rightarrow> Inl err
           | Inr (P2, e2) \<Rightarrow> Inr (P1 @ P2, e2)))"
  by (simp add: Let_def case_prod_beta split: sum.splits)

lemma choice_distinct:
  assumes perm: "permutation_spec w" and d: "distinct a" and n: "n \<le> length a"
  shows "np_random_choice w a n e
      = Inr (map (\<lambda>q. a ! q) (take n (fst (np_permutation w (length a) e))),
             snd (np_permutation w (length a) e))"
    and "length (map (\<lambda>q. a ! q) (take n (fst (np_permutation w (length a) e)))) = n"
    and "distinct (map (\<lambda>q. a ! q) (take n (fst (np_permutation w (length a) e))))"
    and "set (map (\<lambda>q. a ! q) (take n (fst (np_permutation w (length a) e)))) \<subseteq> set a"
proof -
  let ?p = "fst (np_permutation w (length a) e)"
  note p = permutation_spec_perm[OF perm, of "length a" e]
  show "np_random_choice w a n e = Inr (map (\<lambda>q. a ! q) (take n ?p),
             snd (np_permutation w (length a) e))"
    using n by (simp add: np_random_choice_def case_prod_beta)
  show "length (map (\<lambda>q. a ! q) (take n ?p)) = n"
    using n p(3) by simp
  have sub: "set (take n ?p) \<subseteq> {0..<length a}"
    using set_take_subset[of n ?p] p(1) by simp
  have "inj_on (\<lambda>q. a ! q) {0..<length a}"
    using d by (auto simp: inj_on_def nth_eq_iff_index_eq)
  then have "inj_on (\<lambda>q. a ! q) (set (take n ?p))"
    using sub by (rule inj_on_subset)
  then show "distinct (map (\<lambda>q. a ! q) (take n ?p))"
    using p(2) by (simp add: distinct_map)
  show "set (map (\<lambda>q. a ! q) (take n ?p)) \<subseteq> set a"
    using sub by auto
qed

text \<open>
  Claim C5. A request anchored at \<open>j\<close> for \<open>n\<close> parents draws one number \<open>u\<close> from the
  generator. If \<open>u\<close> is below the neighbor-mating probability, the parents are the entries
  of \<open>j\<close>'s neighbor row at the first \<open>n\<close> positions of a permutation of the row's positions
  drawn next: \<open>n\<close> distinct indices of the row, a sample without replacement (for \<open>n\<close> at
  most the row's length). Otherwise they are the first \<open>n\<close> entries of a permutation of the
  population's indices drawn next: \<open>n\<close> distinct indices of the population (for \<open>n\<close> at most
  its size). In a batch every request draws from the environment the one before has left,
  so no draw is used twice. The generator is known to return permutations; how its draws
  are distributed is numpy's matter.
\<close>

theorem neighborhood_selection_request:
  assumes perm: "permutation_spec w"
  shows "(fst (np_random w e) < prob \<longrightarrow> j < length N \<longrightarrow> distinct (N ! j) \<longrightarrow>
            n_par \<le> length (N ! j) \<longrightarrow>
            (\<exists>row. NeighborhoodSelection_do w N prob len_pop 1 n_par (Some [j]) e
                 = Inr ([row], snd (np_permutation w (length (N ! j)) (snd (np_random w e)))) \<and>
               row = map (\<lambda>q. N ! j ! q)
                       (take n_par (fst (np_permutation w (length (N ! j)) (snd (np_random w e))))) \<and>
               length row = n_par \<and> distinct row \<and> set row \<subseteq> set (N ! j))) \<and>
         (\<not> fst (np_random w e) < prob \<longrightarrow> n_par \<le> len_pop \<longrightarrow>
            (\<exists>row. NeighborhoodSelection_do w N prob len_pop 1 n_par (Some [j]) e
                 = Inr ([row], snd (np_permutation w len_pop (snd (np_random w e)))) \<and>
               row = take n_par (fst (np_permutation w len_pop (snd (np_random w e)))) \<and>
               length row = n_par \<and> distinct row \<and> set row \<subseteq> {0..<len_pop})) \<and>
         selection_rows w N prob len_pop n_par (j # k) e =
           (case selection_rows w N prob len_pop n_par [j] e of
              Inl err \<Rightarrow> Inl err
            | Inr (P1, e1) \<Rightarrow>
                (case selection_rows w N prob len_pop n_par k e1 of
                   Inl err \<Rightarrow> Inl err
                 | Inr (P2, e2) \<Rightarrow> Inr (P1 @ P2, e2)))"
proof (intro conjI impI)
  assume u: "fst (np_random w e) < prob" and j: "j < length N"
    and d: "distinct (N ! j)" and n: "n_par \<le> length (N ! j)"
  let ?row = "map (\<lambda>q. N ! j ! q)
      (take n_par (fst (np_permutation w (length (N ! j)) (snd (np_random w e)))))"
  note c = choice_distinct[OF perm d n, of "snd (np_random w e)"]
  have "NeighborhoodSelection_do w N prob len_pop 1 n_par (Some [j]) e
      = Inr ([?row], snd (np_permutation w (length (N ! j)) (snd (np_random w e))))"
    using u j c(1,2)
    by (simp add: NeighborhoodSelection_do_def selection_rows_single assign_row_def
        del: selection_rows.simps)
  with c(2,3,4) show "\<exists>row. NeighborhoodSelection_do w N prob len_pop 1 n_par (Some [j]) e
                 = Inr ([row], snd (np_permutation w (length (N ! j)) (snd (np_random w e)))) \<and>
               row = map (\<lambda>q. N ! j ! q)
                       (take n_par (fst (np_permutation w (length (N ! j)) (snd (np_random w e))))) \<and>
               length row = n_par \<and> distinct row \<and> set row \<subseteq> set (N ! j)"
    by blast
next
  assume u: "\<not> fst (np_random w e) < prob" and n: "n_par \<le> len_pop"
  let ?p = "fst (np_permutation w len_pop (snd (np_random w e)))"
  note p = permutation_spec_perm[OF perm, of len_pop "snd (np_random w e)"]
  have len: "length (take n_par ?p) = n_par"
    using n p(3) by simp
  have "NeighborhoodSelection_do w N prob len_pop 1 n_par (Some [j]) e
      = Inr ([take n_par ?p], snd (np_permutation w len_pop (snd (np_random w e))))"
    using u len
    by (simp add: NeighborhoodSelection_do_def selection_rows_single assign_row_def
        del: selection_rows.simps)
  moreover have "distinct (take n_par ?p)"
    using p(2) by simp
  moreover have "set (take n_par ?p) \<subseteq> {0..<len_pop}"
    using set_take_subset[of n_par ?p] p(1) by simp
  ultimately show "\<exists>row. NeighborhoodSelection_do w N prob len_pop 1 n_par (Some [j]) e
                 = Inr ([row], snd (np_permutation w len_pop (snd (np_random w e)))) \<and>
               row = take n_par (fst (np_permutation w len_pop (snd (np_random w e)))) \<and>
               length row = n_par \<and> distinct row \<and> set row \<subseteq> {0..<len_pop}"
    using len by blast
next
  show "selection_rows w N prob len_pop n_par (j # k) e =
           (case selection_rows w N prob len_pop n_par [j] e of
              Inl err \<Rightarrow> Inl err
            | Inr (P1, e1) \<Rightarrow>
                (case selection_rows w N prob len_pop n_par k e1 of
                   Inl err \<Rightarrow> Inl err
                 | Inr (P2, e2) \<Rightarrow> Inr (P1 @ P2, e2)))"
    by (rule selection_rows_Cons)
qed

theorem neighborhood_selection_request_witness:
  "permutation_spec example_world \<and>
   fst (np_random example_world 0) < 9/10 \<and> 1 < length (neighbors example_state) \<and>
   distinct (neighbors example_state ! 1) \<and> 2 \<le> length (neighbors example_state ! 1) \<and>
   NeighborhoodSelection_do example_world (neighbors example_state) (9/10) 3 1 2 (Some [1]) 0
     = Inr ([[2, 0]], 2) \<and>
   (\<exists>row. NeighborhoodSelection_do example_world (neighbors example_state) (9/10) 3 1 2
          (Some [1]) 0
        = Inr ([row], snd (np_permutation example_world (length (neighbors example_state ! 1))
                        (snd (np_random example_world 0)))) \<and>
      row = map (\<lambda>q. neighbors example_state ! 1 ! q)
              (take 2 (fst (np_permutation example_world (length (neighbors example_state ! 1))
                        (snd (np_random example_world 0))))) \<and>
      length row = 2 \<and> distinct row \<and> set row \<subseteq> set (neighbors example_state ! 1)) \<and>
   \<not> fst (np_random example_world 1) < 9/10 \<and> (2 :: nat) \<le> 3 \<and>
   NeighborhoodSelection_do example_world (neighbors example_state) (9/10) 3 1 2 (Some [1]) 1
     = Inr ([[0, 1]], 3) \<and>
   (\<exists>row. NeighborhoodSelection_do example_world (neighbors example_state) (9/10) 3 1 2
          (Some [1]) 1
        = Inr ([row], snd (np_permutation example_world 3 (snd (np_random example_world 1)))) \<and>
      row = take 2 (fst (np_permutation example_world 3 (snd (np_random example_world 1)))) \<and>
      length row = 2 \<and> distinct row \<and> set row \<subseteq> {0..<3})"
proof -
  note p = example_world_permutation
  have u0: "fst (np_random example_world 0) < 9/10"
    by (simp add: example_world_def)
  have j: "1 < length (neighbors example_state)"
    by (simp add: example_state_def)
  have d: "distinct (neighbors example_state ! 1)"
    by (simp add: example_state_def)
  have n: "2 \<le> length (neighbors example_state ! 1)"
    by (simp add: example_state_def)
  have r0: "NeighborhoodSelection_do example_world (neighbors example_state) (9/10) 3 1 2
      (Some [1]) 0 = Inr ([[2, 0]], 2)"
    by (simp add: example_eval)
  note t0 = neighborhood_selection_request[OF p, THEN conjunct1, THEN mp, THEN mp, THEN mp,
      THEN mp, OF u0 j d n]
  have u1: "\<not> fst (np_random example_world 1) < 9/10"
    by (simp add: example_world_def)
  have m: "(2 :: nat) \<le> 3" by simp
  have r1: "NeighborhoodSelection_do example_world (neighbors example_state) (9/10) 3 1 2
      (Some [1]) 1 = Inr ([[0, 1]], 3)"
    by (simp add: example_eval)
  note t1 = neighborhood_selection_request[OF p, THEN conjunct2, THEN conjunct1, THEN mp,
      THEN mp, OF u1 m]
  show ?thesis
    by (intro conjI p u0 j d n r0 t0 u1 m r1 t1)
qed

text \<open>
  Beyond the contract on the parent count: asking for two parents from a neighbor row of
  one entry raises ValueError, and asking for two from a population of one broadcasts the
  single index into both columns.
\<close>

lemma selection_beyond_contract:
  "NeighborhoodSelection_do example_world [[0]] (9/10) 1 1 2 (Some [0]) 0 = Inl ValueError \<and>
   NeighborhoodSelection_do example_world [[0]] (9/10) 1 1 2 (Some [0]) 1 = Inr ([[0, 0]], 3)"
  apply (simp add: example_eval)
  apply (simp add: numeral_2_eq_2)
  done

end
